theory Spec2Isabelle
  imports Complex_Main "HOL-Library.FSet" "HOL-Library.Multiset"
begin

section \<open>Shared data of the front end\<close>

text \<open>
  The response types of \<open>@/lib/types\<close> are not part of the sources; the records below
  carry the fields that the hooks, stores and components read.  A JavaScript number that
  holds a fraction (\<open>consensus_score\<close>) is a rational, counters are naturals, a field that
  may be \<open>undefined\<close> or \<open>null\<close> is an option.
\<close>

datatype ask_mode = Fast | Consensus

record 'f ConsensusResponse =
  status :: string
  message :: string
  mode :: "ask_mode option"
  facts :: "'f list"
  consensus_score :: rat
  coverage_quality :: string
  sources_analyzed :: nat
  chunks_used :: nat
  headline :: "string option"
  summary :: "string option"
  answer :: "string option"
  divergences :: "string list option"
  bias_analysis :: "string option"

record ArenaResponse =
  judge_best :: string
  judge_worst :: string
  meta_succeeded :: nat

section \<open>Bookmark store (stores/bookmarkStore.ts)\<close>

text \<open>
  \<open>generateId()\<close> and \<open>Date.now()\<close> are read from the environment; the model takes their
  results as the arguments \<open>gid\<close> and \<open>now\<close>.  \<open>BOOKMARKS_MAX\<close> and \<open>SEARCH_HISTORY_MAX\<close>
  come from \<open>@/lib/constants\<close>, which is not part of the sources: they are parameters.
  \<open>xs.slice(0, n)\<close> keeps the first \<open>n\<close> elements, which is \<open>take n xs\<close>.
\<close>

record 'f Bookmark =
  bm_id :: string
  bm_query :: string
  bm_response :: "'f ConsensusResponse"
  bm_savedAt :: nat
  bm_note :: "string option"
  bm_mode :: "ask_mode option"

record ArenaBookmark =
  ab_id :: string
  ab_query :: string
  ab_response :: ArenaResponse
  ab_savedAt :: nat
  ab_note :: "string option"

record 'f BookmarkState =
  bookmarks :: "'f Bookmark list"
  arenaBookmarks :: "ArenaBookmark list"

definition bookmark_init :: "'f BookmarkState" where
  "bookmark_init = \<lparr>bookmarks = [], arenaBookmarks = []\<rparr>"

definition addBookmark ::
  "nat \<Rightarrow> string \<Rightarrow> nat \<Rightarrow> string \<Rightarrow> 'f ConsensusResponse \<Rightarrow> string option \<Rightarrow> ask_mode option
    \<Rightarrow> 'f BookmarkState \<Rightarrow> 'f BookmarkState" where
  "addBookmark BOOKMARKS_MAX gid now query response note md state =
     state\<lparr>bookmarks :=
       take BOOKMARKS_MAX
         (\<lparr>bm_id = gid, bm_query = query, bm_response = response, bm_savedAt = now,
            bm_note = note, bm_mode = md\<rparr> # bookmarks state)\<rparr>"

definition removeBookmark :: "string \<Rightarrow> 'f BookmarkState \<Rightarrow> 'f BookmarkState" where
  "removeBookmark i state = state\<lparr>bookmarks := filter (\<lambda>b. bm_id b \<noteq> i) (bookmarks state)\<rparr>"

definition removeByQuery :: "string \<Rightarrow> 'f BookmarkState \<Rightarrow> 'f BookmarkState" where
  "removeByQuery query state =
     state\<lparr>bookmarks := filter (\<lambda>b. bm_query b \<noteq> query) (bookmarks state)\<rparr>"

definition isBookmarked :: "string \<Rightarrow> 'f BookmarkState \<Rightarrow> bool" where
  "isBookmarked query state = list_ex (\<lambda>b. bm_query b = query) (bookmarks state)"

definition getBookmark :: "string \<Rightarrow> 'f BookmarkState \<Rightarrow> 'f Bookmark option" where
  "getBookmark i state = find (\<lambda>b. bm_id b = i) (bookmarks state)"

definition addArenaBookmark ::
  "nat \<Rightarrow> string \<Rightarrow> nat \<Rightarrow> string \<Rightarrow> ArenaResponse \<Rightarrow> string option
    \<Rightarrow> 'f BookmarkState \<Rightarrow> 'f BookmarkState" where
  "addArenaBookmark BOOKMARKS_MAX gid now query response note state =
     state\<lparr>arenaBookmarks :=
       take BOOKMARKS_MAX
         (\<lparr>ab_id = gid, ab_query = query, ab_response = response, ab_savedAt = now,
            ab_note = note\<rparr> # arenaBookmarks state)\<rparr>"

definition removeArenaBookmark :: "string \<Rightarrow> 'f BookmarkState \<Rightarrow> 'f BookmarkState" where
  "removeArenaBookmark i state =
     state\<lparr>arenaBookmarks := filter (\<lambda>b. ab_id b \<noteq> i) (arenaBookmarks state)\<rparr>"

definition isArenaBookmarked :: "string \<Rightarrow> 'f BookmarkState \<Rightarrow> bool" where
  "isArenaBookmarked query state = list_ex (\<lambda>b. ab_query b = query) (arenaBookmarks state)"

text \<open>The operations that change the store, as data, and a run of them in order.\<close>

datatype 'f bookmark_op =
    AddBookmark string nat string "'f ConsensusResponse" "string option" "ask_mode option"
  | RemoveBookmark string
  | RemoveByQuery string
  | AddArenaBookmark string nat string ArenaResponse "string option"
  | RemoveArenaBookmark string

fun bookmark_step :: "nat \<Rightarrow> 'f bookmark_op \<Rightarrow> 'f BookmarkState \<Rightarrow> 'f BookmarkState" where
  "bookmark_step M (AddBookmark gid now q r note md) s = addBookmark M gid now q r note md s"
| "bookmark_step M (RemoveBookmark i) s = removeBookmark i s"
| "bookmark_step M (RemoveByQuery q) s = removeByQuery q s"
| "bookmark_step M (AddArenaBookmark gid now q r note) s = addArenaBookmark M gid now q r note s"
| "bookmark_step M (RemoveArenaBookmark i) s = removeArenaBookmark i s"

fun bookmark_run :: "nat \<Rightarrow> 'f bookmark_op list \<Rightarrow> 'f BookmarkState \<Rightarrow> 'f BookmarkState" where
  "bookmark_run M [] s = s"
| "bookmark_run M (x # xs) s = bookmark_run M xs (bookmark_step M x s)"

definition bookmarks_within :: "nat \<Rightarrow> 'f BookmarkState \<Rightarrow> bool" where
  "bookmarks_within M s \<longleftrightarrow> length (bookmarks s) \<le> M \<and> length (arenaBookmarks s) \<le> M"

section \<open>Search history store (stores/searchHistoryStore.ts)\<close>

text \<open>
  \<open>calcDisruption\<close> of \<open>@/lib/utils\<close> is not part of the sources: it is the parameter
  \<open>calcDisruption\<close>.  \<open>response?.x ?? d\<close> reads \<open>x\<close> of a response that is present and
  gives \<open>d\<close> for \<open>null\<close>.
\<close>

record 'f SearchHistoryEntry =
  he_id :: string
  he_query :: string
  he_timestamp :: nat
  he_response :: "'f ConsensusResponse option"
  he_consensusScore :: "rat option"
  he_factsCount :: nat
  he_mode :: ask_mode
  he_type :: string

record 'd ArenaHistoryEntry =
  ae_id :: string
  ae_query :: string
  ae_timestamp :: nat
  ae_response :: ArenaResponse
  ae_bestModel :: string
  ae_worstModel :: string
  ae_modelsCount :: nat
  ae_disruption :: 'd

record ('f, 'd) SearchHistoryState =
  entries :: "'f SearchHistoryEntry list"
  arenaEntries :: "'d ArenaHistoryEntry list"

definition history_init :: "('f, 'd) SearchHistoryState" where
  "history_init = \<lparr>entries = [], arenaEntries = []\<rparr>"

definition addEntry ::
  "nat \<Rightarrow> string \<Rightarrow> nat \<Rightarrow> string \<Rightarrow> 'f ConsensusResponse option \<Rightarrow> ask_mode option
    \<Rightarrow> ('f, 'd) SearchHistoryState \<Rightarrow> ('f, 'd) SearchHistoryState" where
  "addEntry SEARCH_HISTORY_MAX gid now query response md state =
     state\<lparr>entries :=
       take SEARCH_HISTORY_MAX
         (\<lparr>he_id = gid, he_query = query, he_timestamp = now, he_response = response,
            he_consensusScore = map_option consensus_score response,
            he_factsCount = (case response of None \<Rightarrow> 0 | Some r \<Rightarrow> length (facts r)),
            he_mode = (case md of
                         Some m \<Rightarrow> m
                       | None \<Rightarrow> (if Option.bind response mode = Some Fast then Fast else Consensus)),
            he_type = ''search''\<rparr> # entries state)\<rparr>"

definition removeEntry :: "string \<Rightarrow> ('f, 'd) SearchHistoryState \<Rightarrow> ('f, 'd) SearchHistoryState" where
  "removeEntry i state = state\<lparr>entries := filter (\<lambda>e. he_id e \<noteq> i) (entries state)\<rparr>"

definition clearHistory :: "('f, 'd) SearchHistoryState \<Rightarrow> ('f, 'd) SearchHistoryState" where
  "clearHistory state = state\<lparr>entries := [], arenaEntries := []\<rparr>"

definition getEntry :: "string \<Rightarrow> ('f, 'd) SearchHistoryState \<Rightarrow> 'f SearchHistoryEntry option" where
  "getEntry i state = find (\<lambda>e. he_id e = i) (entries state)"

definition addArenaEntry ::
  "nat \<Rightarrow> (ArenaResponse \<Rightarrow> 'd) \<Rightarrow> string \<Rightarrow> nat \<Rightarrow> string \<Rightarrow> ArenaResponse
    \<Rightarrow> ('f, 'd) SearchHistoryState \<Rightarrow> ('f, 'd) SearchHistoryState" where
  "addArenaEntry SEARCH_HISTORY_MAX calcDisruption gid now query response state =
     state\<lparr>arenaEntries :=
       take SEARCH_HISTORY_MAX
         (\<lparr>ae_id = gid, ae_query = query, ae_timestamp = now, ae_response = response,
            ae_bestModel = judge_best response, ae_worstModel = judge_worst response,
            ae_modelsCount = meta_succeeded response,
            ae_disruption = calcDisruption response\<rparr> # arenaEntries state)\<rparr>"

definition removeArenaEntry :: "string \<Rightarrow> ('f, 'd) SearchHistoryState \<Rightarrow> ('f, 'd) SearchHistoryState" where
  "removeArenaEntry i state =
     state\<lparr>arenaEntries := filter (\<lambda>e. ae_id e \<noteq> i) (arenaEntries state)\<rparr>"

definition clearArenaHistory :: "('f, 'd) SearchHistoryState \<Rightarrow> ('f, 'd) SearchHistoryState" where
  "clearArenaHistory state = state\<lparr>arenaEntries := []\<rparr>"

definition getArenaEntry :: "string \<Rightarrow> ('f, 'd) SearchHistoryState \<Rightarrow> 'd ArenaHistoryEntry option" where
  "getArenaEntry i state = find (\<lambda>e. ae_id e = i) (arenaEntries state)"

datatype 'f history_op =
    AddEntry string nat string "'f ConsensusResponse option" "ask_mode option"
  | RemoveEntry string
  | ClearHistory
  | AddArenaEntry string nat string ArenaResponse
  | RemoveArenaEntry string
  | ClearArenaHistory

fun history_step ::
  "nat \<Rightarrow> (ArenaResponse \<Rightarrow> 'd) \<Rightarrow> 'f history_op \<Rightarrow> ('f, 'd) SearchHistoryState
    \<Rightarrow> ('f, 'd) SearchHistoryState" where
  "history_step M cd (AddEntry gid now q r md) s = addEntry M gid now q r md s"
| "history_step M cd (RemoveEntry i) s = removeEntry i s"
| "history_step M cd ClearHistory s = clearHistory s"
| "history_step M cd (AddArenaEntry gid now q r) s = addArenaEntry M cd gid now q r s"
| "history_step M cd (RemoveArenaEntry i) s = removeArenaEntry i s"
| "history_step M cd ClearArenaHistory s = clearArenaHistory s"

fun history_run ::
  "nat \<Rightarrow> (ArenaResponse \<Rightarrow> 'd) \<Rightarrow> 'f history_op list \<Rightarrow> ('f, 'd) SearchHistoryState
    \<Rightarrow> ('f, 'd) SearchHistoryState" where
  "history_run M cd [] s = s"
| "history_run M cd (x # xs) s = history_run M cd xs (history_step M cd x s)"

definition history_within :: "nat \<Rightarrow> ('f, 'd) SearchHistoryState \<Rightarrow> bool" where
  "history_within M s \<longleftrightarrow> length (entries s) \<le> M \<and> length (arenaEntries s) \<le> M"

section \<open>Source selection (the sources page)\<close>

text \<open>
  The page keeps the selected source names in a JavaScript \<open>Set\<close>; the model keeps them in a
  finite set, \<open>size\<close> is \<open>fcard\<close>.  Each handler passes an update function to \<open>setSelected\<close>;
  the definitions below are those update functions, from the previous selection to the next.
  The \<open>sources\<close> of a catalog country are the field \<open>country_sources\<close> here, apart from the
  \<open>sources\<close> count of the statistics.
\<close>

definition MAX_SOURCES :: nat where
  "MAX_SOURCES = 20"

record CatalogSource =
  name :: string

record CatalogCountry =
  code :: string
  country_sources :: "CatalogSource list"

definition toggle :: "string \<Rightarrow> string fset \<Rightarrow> string fset" where
  "toggle nm prev =
     (if nm |\<in>| prev then prev |-| {|nm|}
      else if fcard prev \<ge> MAX_SOURCES then prev
      else finsert nm prev)"

text \<open>The \<open>for\<close> loop of the bulk select, with its \<open>break\<close> at the cap.\<close>

fun add_names :: "string list \<Rightarrow> string fset \<Rightarrow> string fset" where
  "add_names [] nxt = nxt"
| "add_names (n # ns) nxt =
     (if fcard nxt \<ge> MAX_SOURCES then nxt else add_names ns (finsert n nxt))"

definition selectAllInCountry :: "CatalogCountry \<Rightarrow> string fset \<Rightarrow> string fset" where
  "selectAllInCountry country prev =
     (let names = map name (country_sources country);
          allIn = list_all (\<lambda>n. n |\<in>| prev) names
      in if allIn then fold (\<lambda>n nxt. nxt |-| {|n|}) names prev
         else add_names names prev)"

datatype selection_op = Toggle string | SelectAllInCountry CatalogCountry

fun selection_step :: "selection_op \<Rightarrow> string fset \<Rightarrow> string fset" where
  "selection_step (Toggle nm) s = toggle nm s"
| "selection_step (SelectAllInCountry c) s = selectAllInCountry c s"

fun selection_run :: "selection_op list \<Rightarrow> string fset \<Rightarrow> string fset" where
  "selection_run [] s = s"
| "selection_run (x # xs) s = selection_run xs (selection_step x s)"

text \<open>A full selection of twenty names, for the concrete check of the cap.\<close>

definition twenty_sources :: "string fset" where
  "twenty_sources = fset_of_list (map (\<lambda>n. replicate (Suc n) CHR ''s'') [0..<20])"

section \<open>Strings of the hooks\<close>

text \<open>
  \<open>String.prototype.trim\<close> removes white space and line terminators from both ends.  A
  \<open>char\<close> is one code unit below 256; among these, the white space of ECMAScript is tab,
  line feed, vertical tab, form feed, carriage return, space and the no-break space.
\<close>

definition is_ws :: "char \<Rightarrow> bool" where
  "is_ws c \<longleftrightarrow> of_char c \<in> {9, 10, 11, 12, 13, 32, 160 :: nat}"

definition trim :: "string \<Rightarrow> string" where
  "trim s = rev (dropWhile is_ws (rev (dropWhile is_ws s)))"

definition startsWith :: "string \<Rightarrow> string \<Rightarrow> bool" where
  "startsWith s p \<longleftrightarrow> take (length p) s = p"

text \<open>
  \<open>s.split("\n\n")\<close>: the pieces of \<open>s\<close> between the occurrences of two line feeds, found
  from the left; a string without the separator is its own single piece.
\<close>

definition LF :: char where
  "LF = CHR 0x0A"

fun split_blank :: "string \<Rightarrow> string list" where
  "split_blank [] = [[]]"
| "split_blank [c] = [[c]]"
| "split_blank (c # d # s) =
     (if c = LF \<and> d = LF then [] # split_blank s
      else (case split_blank (d # s) of
              p # ps \<Rightarrow> (c # p) # ps
            | [] \<Rightarrow> [[c]]))"

section \<open>The consensus hook (hooks/useConsensus.ts)\<close>

text \<open>
  What a \<open>throw\<close> or a rejected promise carries: an \<open>Error\<close> with its message, or any other
  value.  \<open>askStream\<close> of \<open>@/lib/api\<close> is not part of the sources; it is a parameter that
  either rejects or gives a reader.  A reader is the list of the results of its \<open>read()\<close>
  calls: a decoded chunk, or a rejection; at the end of the list \<open>read()\<close> reports \<open>done\<close>.
  \<open>JSON.parse\<close>, with the read of \<open>data.status\<close> that follows it, is the parameter \<open>parse\<close>:
  \<open>Inl m\<close> is the \<open>Error\<close> with message \<open>m\<close> thrown for text that is not JSON (or for the
  JSON \<open>null\<close>), \<open>Inr data\<close> the parsed object.
\<close>

datatype thrown = Error string | NonError

datatype read_result = Value string | ReadRejects thrown

record 'f ConsensusState =
  response :: "'f ConsensusResponse option"
  loading :: bool
  error :: "string option"
  streamStatus :: string

definition reset :: "'f ConsensusState \<Rightarrow> 'f ConsensusState" where
  "reset st = st\<lparr>response := None, error := None, streamStatus := [], loading := False\<rparr>"

text \<open>
  The body of the \<open>for\<close> loop for one parsed event.  The result is the value of
  \<open>finalResponse\<close> or what was thrown, with the state after the calls of the setters.
\<close>

definition handle_data ::
  "'f ConsensusResponse \<Rightarrow> 'f ConsensusResponse option \<Rightarrow> 'f ConsensusState
    \<Rightarrow> (thrown + 'f ConsensusResponse option) \<times> 'f ConsensusState" where
  "handle_data data finalResponse st =
     (if status data = ''searching'' \<or> status data = ''analyzing'' \<or> status data = ''generating''
      then (Inr finalResponse, st\<lparr>streamStatus := message data\<rparr>)
      else if status data = ''complete''
      then (Inr (Some data), st\<lparr>response := Some data, streamStatus := [], loading := False\<rparr>)
      else if status data = ''error''
      then (Inl (Error (message data)), st)
      else (Inr finalResponse, st))"

fun for_lines ::
  "(string \<Rightarrow> string + 'f ConsensusResponse) \<Rightarrow> string list \<Rightarrow> 'f ConsensusResponse option
    \<Rightarrow> 'f ConsensusState \<Rightarrow> (thrown + 'f ConsensusResponse option) \<times> 'f ConsensusState" where
  "for_lines parse [] finalResponse st = (Inr finalResponse, st)"
| "for_lines parse (line # lines) finalResponse st =
     (if startsWith line ''data: '' then
        (case parse (drop 6 line) of
           Inl m \<Rightarrow> (Inl (Error m), st)
         | Inr data \<Rightarrow>
             (case handle_data data finalResponse st of
                (Inl t, st') \<Rightarrow> (Inl t, st')
              | (Inr fin, st') \<Rightarrow> for_lines parse lines fin st'))
      else for_lines parse lines finalResponse st)"

text \<open>
  The \<open>while (true)\<close> loop: one round for each result of \<open>read()\<close>.  \<open>buffer\<close> gets the
  chunk appended and is split; \<open>lines.pop()\<close> takes the last piece back as the new buffer.
\<close>

fun read_loop ::
  "(string \<Rightarrow> string + 'f ConsensusResponse) \<Rightarrow> read_result list \<Rightarrow> string
    \<Rightarrow> 'f ConsensusResponse option \<Rightarrow> 'f ConsensusState
    \<Rightarrow> (thrown + 'f ConsensusResponse option) \<times> 'f ConsensusState" where
  "read_loop parse [] buffer finalResponse st = (Inr finalResponse, st)"
| "read_loop parse (ReadRejects t # rs) buffer finalResponse st = (Inl t, st)"
| "read_loop parse (Value v # rs) buffer finalResponse st =
     (let lines = split_blank (buffer @ v) in
      case for_lines parse (butlast lines) finalResponse st of
        (Inl t, st') \<Rightarrow> (Inl t, st')
      | (Inr fin, st') \<Rightarrow> read_loop parse rs (last lines) fin st')"

text \<open>
  \<open>ask_body\<close> is the \<open>try\<close> block: its result is the value it returns or what it throws,
  with the state after the setter calls made so far.  \<open>ask\<close> is the whole function with its
  \<open>catch\<close> and \<open>finally\<close>: the \<open>catch\<close> turns whatever was thrown into the stored error
  message and the value \<open>null\<close>, so the promise of \<open>ask\<close> always resolves.  The result of
  \<open>ask\<close> is the resolved value, the state after all setter calls, and the list of the calls
  of \<open>askStream\<close> it made (its network requests).
\<close>

definition ask_body ::
  "(string \<Rightarrow> ask_mode \<Rightarrow> thrown + read_result list)
    \<Rightarrow> (string \<Rightarrow> string + 'f ConsensusResponse) \<Rightarrow> string \<Rightarrow> ask_mode \<Rightarrow> 'f ConsensusState
    \<Rightarrow> (thrown + 'f ConsensusResponse option) \<times> 'f ConsensusState" where
  "ask_body askStream parse question md st =
     (case askStream question md of
        Inl t \<Rightarrow> (Inl t, st)
      | Inr reader \<Rightarrow> read_loop parse reader [] None st)"

definition catch_message :: "thrown \<Rightarrow> string" where
  "catch_message err = (case err of Error m \<Rightarrow> m | NonError \<Rightarrow> ''Error connecting to backend.'')"

definition ask ::
  "(string \<Rightarrow> ask_mode \<Rightarrow> thrown + read_result list)
    \<Rightarrow> (string \<Rightarrow> string + 'f ConsensusResponse) \<Rightarrow> string \<Rightarrow> ask_mode \<Rightarrow> 'f ConsensusState
    \<Rightarrow> 'f ConsensusResponse option \<times> 'f ConsensusState \<times> (string \<times> ask_mode) list" where
  "ask askStream parse question md st =
     (if trim question = [] then (None, st, [])
      else
        let st1 = st\<lparr>loading := True, response := None, error := None,
                     streamStatus := ''Initializing...''\<rparr>;
            (ret, st3) =
              (case ask_body askStream parse question md st1 of
                 (Inr finalResponse, st2) \<Rightarrow> (finalResponse, st2)
               | (Inl err, st2) \<Rightarrow>
                   (None, st2\<lparr>error := Some (catch_message err), streamStatus := []\<rparr>))
        in (ret, st3\<lparr>loading := False, streamStatus := []\<rparr>, [(question, md)]))"

text \<open>
  The stream as the server frames it: every event is the text \<open>data: \<close>, the JSON text of
  the event and a blank line.  \<open>run_events\<close> is the \<open>for\<close> loop seen on parsed events;
  \<open>last_complete\<close> is the last event of status \<open>complete\<close>, \<open>first_error\<close> the first of status
  \<open>error\<close>.
\<close>

definition frame :: "string \<Rightarrow> string" where
  "frame text = ''data: '' @ text @ [LF, LF]"

fun run_events ::
  "'f ConsensusResponse list \<Rightarrow> 'f ConsensusResponse option \<Rightarrow> 'f ConsensusState
    \<Rightarrow> (thrown + 'f ConsensusResponse option) \<times> 'f ConsensusState" where
  "run_events [] finalResponse st = (Inr finalResponse, st)"
| "run_events (data # rest) finalResponse st =
     (case handle_data data finalResponse st of
        (Inl t, st') \<Rightarrow> (Inl t, st')
      | (Inr fin, st') \<Rightarrow> run_events rest fin st')"

definition is_progress :: "'f ConsensusResponse \<Rightarrow> bool" where
  "is_progress data \<longleftrightarrow>
     status data = ''searching'' \<or> status data = ''analyzing'' \<or> status data = ''generating''"

definition is_complete :: "'f ConsensusResponse \<Rightarrow> bool" where
  "is_complete data \<longleftrightarrow> status data = ''complete''"

definition is_error :: "'f ConsensusResponse \<Rightarrow> bool" where
  "is_error data \<longleftrightarrow> status data = ''error''"

definition last_complete :: "'f ConsensusResponse list \<Rightarrow> 'f ConsensusResponse option" where
  "last_complete evs = find is_complete (rev evs)"

definition first_error :: "'f ConsensusResponse list \<Rightarrow> 'f ConsensusResponse option" where
  "first_error evs = find is_error evs"

section \<open>The search preview hook (hooks/useSearchPreview.ts)\<close>

text \<open>
  \<open>searchPreview\<close> of \<open>@/lib/api\<close> is a parameter that rejects or gives the preview.  The
  result of \<open>search\<close> is the state after it and the list of requests it made.
\<close>

record 'p PreviewState =
  preview :: "'p option"
  sp_loading :: bool
  sp_error :: "string option"

definition search ::
  "(string \<Rightarrow> thrown + 'p) \<Rightarrow> string \<Rightarrow> 'p PreviewState \<Rightarrow> 'p PreviewState \<times> string list" where
  "search searchPreview question st =
     (if trim question = [] then (st, [])
      else
        let st1 = st\<lparr>sp_loading := True, sp_error := None\<rparr>;
            st2 = (case searchPreview question of
                     Inr data \<Rightarrow> st1\<lparr>preview := Some data\<rparr>
                   | Inl err \<Rightarrow>
                       st1\<lparr>sp_error :=
                         Some (case err of Error m \<Rightarrow> m | NonError \<Rightarrow> ''Search failed'')\<rparr>)
        in (st2\<lparr>sp_loading := False\<rparr>, [question]))"

section \<open>The arena page (app/arena/page.tsx)\<close>

text \<open>
  \<open>fetch\<close> is a parameter: the request rejects, or the body is not JSON (\<open>res.json()\<close>
  rejects), or there is a response with \<open>res.ok\<close>, \<open>res.status\<close>, the \<open>detail\<close> of the body
  and the body read as an arena response.  The handler changes the page state and, through
  \<open>addArenaEntry\<close>, the history store; it returns both with the list of requests made.
\<close>

datatype fetch_result =
    FetchRejects thrown
  | JsonRejects thrown
  | Response bool nat "string option" ArenaResponse

record ArenaPageState =
  ar_result :: "ArenaResponse option"
  ar_loading :: bool
  ar_error :: "string option"
  ar_expandedId :: "string option"

fun show_nat :: "nat \<Rightarrow> string" where
  "show_nat n =
     (if n < 10 then [char_of (48 + n)] else show_nat (n div 10) @ [char_of (48 + n mod 10)])"

definition handleAnalyzeWithQuery ::
  "(string \<Rightarrow> fetch_result) \<Rightarrow> nat \<Rightarrow> (ArenaResponse \<Rightarrow> 'd) \<Rightarrow> string \<Rightarrow> nat \<Rightarrow> string
    \<Rightarrow> ArenaPageState \<times> ('f, 'd) SearchHistoryState
    \<Rightarrow> (ArenaPageState \<times> ('f, 'd) SearchHistoryState) \<times> string list" where
  "handleAnalyzeWithQuery fetch SEARCH_HISTORY_MAX calcDisruption gid now query ps =
     (if trim query = [] then (ps, [])
      else
        let (st, hist) = ps;
            st1 = st\<lparr>ar_loading := True, ar_result := None, ar_error := None,
                     ar_expandedId := None\<rparr>;
            failed = (\<lambda>err. (st1\<lparr>ar_error :=
                         Some (case err of Error m \<Rightarrow> m
                               | NonError \<Rightarrow> ''Failed to connect to ConsentAI.'')\<rparr>, hist));
            (st2, hist2) =
              (case fetch query of
                 FetchRejects err \<Rightarrow> failed err
               | JsonRejects err \<Rightarrow> failed err
               | Response ok res_status detail data \<Rightarrow>
                   if \<not> ok then
                     failed (Error (case detail of
                                      Some d \<Rightarrow> if d \<noteq> [] then d else ''Error '' @ show_nat res_status
                                    | None \<Rightarrow> ''Error '' @ show_nat res_status))
                   else (st1\<lparr>ar_result := Some data\<rparr>,
                         addArenaEntry SEARCH_HISTORY_MAX calcDisruption gid now query data hist))
        in ((st2\<lparr>ar_loading := False\<rparr>, hist2), [query]))"

text \<open>
  A small stream for the concrete checks: a progress event and a complete event whose frames
  arrive cut in the middle of the blank line, and a stream that ends in an error event.
\<close>

definition demo_event :: "string \<Rightarrow> string \<Rightarrow> nat ConsensusResponse" where
  "demo_event s m =
     \<lparr>status = s, message = m, mode = Some Consensus, facts = [1, 2], consensus_score = 1 / 2,
      coverage_quality = ''high'', sources_analyzed = 3, chunks_used = 5, headline = None,
      summary = None, answer = None, divergences = None, bias_analysis = None\<rparr>"

definition demo_parse :: "string \<Rightarrow> string + nat ConsensusResponse" where
  "demo_parse text =
     (if text = ''S'' then Inr (demo_event ''searching'' ''Searching sources'')
      else if text = ''C'' then Inr (demo_event ''complete'' [])
      else if text = ''E'' then Inr (demo_event ''error'' ''No provider answered'')
      else Inl ''Unexpected token'')"

definition demo_stream :: "string \<Rightarrow> ask_mode \<Rightarrow> thrown + read_result list" where
  "demo_stream question md =
     (if md = Consensus
      then Inr (map Value [''data: S'' @ [LF], [LF] @ ''data: C'' @ [LF, LF]])
      else Inr (map Value [''data: S'' @ [LF, LF] @ ''data: E'' @ [LF, LF]]))"

definition demo_state :: "nat ConsensusState" where
  "demo_state = \<lparr>response = None, loading = False, error = Some ''old'', streamStatus = []\<rparr>"

section \<open>Result components\<close>

text \<open>
  A component is a function from its props to what it renders.  The rendering keeps the
  texts and numbers a reader sees and drops the styling.  A \<open>MetricCard\<close> shows its label,
  its value, a progress bar when \<open>progressValue\<close> is given and a subtitle when one is given.
  The \<open>value\<close> prop of a card is the field \<open>shown\<close>.  \<open>Math.round(x)\<close> is \<open>round x\<close>, on
  the exact product of the score and 100: the code multiplies doubles, so a score whose
  product falls within the rounding error of a half can show one percent more or less there
  than here; a count that is \<open>undefined\<close> reads as \<open>0\<close>, a text that is
  \<open>undefined\<close> as the empty string (both are falsy in \<open>a || b\<close>).
\<close>

datatype cell = Txt string | Percent int | Count nat

record MetricCard =
  label :: string
  shown :: cell
  subtitle :: "string option"
  progressValue :: "int option"

record MetricsBarView =
  columns :: nat
  score_card :: "MetricCard option"
  sources_card :: MetricCard
  coverage_color :: string
  coverage_text :: string
  coverage_caption :: string

definition MetricsBar :: "'f ConsensusResponse \<Rightarrow> MetricsBarView" where
  "MetricsBar resp =
     (let isFast = (mode resp = Some Fast);
          scorePercent = round (consensus_score resp * 100);
          coverageColor =
            (if coverage_quality resp = ''low'' then ''amber''
             else if coverage_quality resp = ''medium'' then ''blue''
             else ''emerald'')
      in \<lparr>columns = (if isFast then 2 else 3),
          score_card =
            (if \<not> isFast
             then Some \<lparr>label = ''Consensus Score'',
                        shown = (if length (facts resp) = 0 then Txt ''N/A''
                                 else Percent scorePercent),
                        subtitle = None,
                        progressValue = Some (if length (facts resp) = 0 then 0
                                              else scorePercent)\<rparr>
             else None),
          sources_card =
            \<lparr>label = ''Sources Analyzed'',
             shown = Count (if sources_analyzed resp \<noteq> 0 then sources_analyzed resp
                            else chunks_used resp),
             subtitle = Some (if length (facts resp) = 0 then ''No relevant coverage''
                              else ''From top outlets''),
             progressValue = None\<rparr>,
          coverage_color = coverageColor,
          coverage_text = (if coverage_quality resp \<noteq> [] then coverage_quality resp
                           else ''High''),
          coverage_caption = (if length (facts resp) = 0 then ''Topic not covered''
                              else ''Multi-source verified'')\<rparr>)"

text \<open>
  \<open>ResultsContainer\<close> returns the \<open>NoResults\<close> element for a response without facts, before
  anything else is built; otherwise the mode badge, the bookmark button, the metrics bar,
  headline and summary, the fact list, and the divergences and the bias analysis when the
  response has them.
\<close>

record 'f ResultsBody =
  badge :: string
  bookmark_button :: "string \<times> 'f ConsensusResponse"
  metrics :: MetricsBarView
  headline_summary :: "string option \<times> string option \<times> string option"
  fact_list :: "'f list \<times> ask_mode option"
  divergence_list :: "string list option"
  bias_box :: "string option"

datatype 'f ResultsView = NoResults | Results "'f ResultsBody"

definition ResultsContainer :: "'f ConsensusResponse \<Rightarrow> string \<Rightarrow> 'f ResultsView" where
  "ResultsContainer resp query =
     (if length (facts resp) = 0 then NoResults
      else
        let isFast = (mode resp = Some Fast)
        in Results
             \<lparr>badge = (if isFast then ''Fast AI (Cerebras)'' else ''Consensus Council''),
              bookmark_button = (query, resp),
              metrics = MetricsBar resp,
              headline_summary = (headline resp, summary resp, answer resp),
              fact_list = (facts resp, mode resp),
              divergence_list =
                (case divergences resp of
                   Some ds \<Rightarrow> if length ds > 0 then Some ds else None
                 | None \<Rightarrow> None),
              bias_box =
                (case bias_analysis resp of
                   Some b \<Rightarrow> if b \<noteq> [] then Some b else None
                 | None \<Rightarrow> None)\<rparr>)"

text \<open>
  The search page: the hero section while there is no response, the stream status and the
  error banner when their message is not empty, and the results container for a response.
\<close>

definition StreamStatus :: "string \<Rightarrow> string option" where
  "StreamStatus msg = (if msg = [] then None else Some msg)"

definition ErrorBanner :: "string option \<Rightarrow> string option" where
  "ErrorBanner msg = (case msg of None \<Rightarrow> None | Some m \<Rightarrow> if m = [] then None else Some m)"

record 'f SearchPageView =
  hero :: bool
  stream_status :: "string option"
  error_banner :: "string option"
  results :: "'f ResultsView option"

definition SearchContent :: "'f ConsensusState \<Rightarrow> string \<Rightarrow> 'f SearchPageView" where
  "SearchContent st question =
     \<lparr>hero = (response st = None),
      stream_status = StreamStatus (streamStatus st),
      error_banner = ErrorBanner (error st),
      results = map_option (\<lambda>r. ResultsContainer r question) (response st)\<rparr>"

text \<open>
  What a results view shows of the metrics: the value of the consensus score card and the
  note under the sources card.  The \<open>NoResults\<close> element holds neither.
\<close>

definition score_shown :: "'f ResultsView \<Rightarrow> cell option" where
  "score_shown v =
     (case v of NoResults \<Rightarrow> None
      | Results body \<Rightarrow> map_option shown (score_card (metrics body)))"

definition sources_note_shown :: "'f ResultsView \<Rightarrow> string option" where
  "sources_note_shown v =
     (case v of NoResults \<Rightarrow> None
      | Results body \<Rightarrow> subtitle (sources_card (metrics body)))"

section \<open>Statistics (hooks/useStats.ts, the dashboard and the sidebar)\<close>

text \<open>
  Modelled from the spec: the \<open>Stats\<close> type of \<open>@/lib/types\<close> and the stats operation of the
  back end are not part of the sources.  The spec gives the result of \<open>stats()\<close> as the four
  fields \<open>articles_indexed\<close>, \<open>chunks_created\<close>, \<open>sources\<close> and \<open>embeddings_ready\<close>; the
  record has these four.  The consumers are written over any extension of the record, so
  that a further field of the object would be seen if a consumer read it.
\<close>

record Stats =
  articles_indexed :: nat
  chunks_created :: nat
  sources :: nat
  embeddings_ready :: bool

record 'x StatsState =
  stats :: "'x Stats_scheme option"
  st_loading :: bool
  st_error :: "string option"

definition refresh :: "(thrown + 'x Stats_scheme) \<Rightarrow> 'x StatsState \<Rightarrow> 'x StatsState" where
  "refresh fetched st =
     (let st1 = st\<lparr>st_loading := True, st_error := None\<rparr>;
          st2 = (case fetched of
                   Inr data \<Rightarrow> st1\<lparr>stats := Some data\<rparr>
                 | Inl err \<Rightarrow>
                     st1\<lparr>st_error :=
                       Some (case err of Error m \<Rightarrow> m | NonError \<Rightarrow> ''Failed to fetch stats'')\<rparr>)
      in st2\<lparr>st_loading := False\<rparr>)"

definition StatsOverview :: "'x StatsState \<Rightarrow> MetricCard list option" where
  "StatsOverview st =
     (case stats st of
        None \<Rightarrow> None
      | Some s \<Rightarrow>
          Some [\<lparr>label = ''Articles Indexed'', shown = Count (articles_indexed s),
                  subtitle = None, progressValue = None\<rparr>,
                \<lparr>label = ''Facts Checked'', shown = Count (chunks_created s),
                  subtitle = None, progressValue = None\<rparr>,
                \<lparr>label = ''Sources'', shown = Count (sources s),
                  subtitle = None, progressValue = None\<rparr>,
                \<lparr>label = ''Embeddings'',
                  shown = Txt (if embeddings_ready s then ''Ready'' else ''Pending''),
                  subtitle = Some (if embeddings_ready s then ''System operational''
                                   else ''Generating...''),
                  progressValue = None\<rparr>])"

text \<open>The line of the sidebar: the article count and the source count, when stats are loaded.\<close>

definition Sidebar_stats :: "'x StatsState \<Rightarrow> (nat \<times> nat) option" where
  "Sidebar_stats st = map_option (\<lambda>s. (articles_indexed s, sources s)) (stats st)"

text \<open>A complete event of consensus mode without facts, for the concrete checks.\<close>

definition no_coverage_response :: "nat ConsensusResponse" where
  "no_coverage_response = (demo_event ''complete'' [])\<lparr>facts := []\<rparr>"

section \<open>Retrieval engine (spec 4.2)\<close>

text \<open>
  Modelled from the spec: the retrieval engine of the back end (\<open>rag_optimized.py\<close>) is not
  part of the sources.  The definitions follow sections 3 and 4.2 of the spec: a chunk with
  its metadata, an index snapshot of chunks with their vectors, and \<open>retrieve\<close>, which embeds
  the query, scores every vector of the index that passes the filters, sorts by descending
  score, then by higher recency, then by chunk id in lexicographic order, and keeps the
  first \<open>k\<close>.  The cosine similarity is computed in floating point; the model takes it as a
  parameter \<open>sim\<close> into any linearly ordered type of scores.  The embedding of the query is
  the parameter \<open>embed_query\<close>, \<open>None\<close> when the source of truth fails.
\<close>

record Chunk =
  chunk_id :: string
  article_id :: string
  ordinal :: nat
  text_span :: string
  source_name :: string
  publish_date :: nat

datatype retrieval_error = EmbeddingUnavailable

text \<open>Lexicographic order on identifiers, by the codes of their characters.\<close>

fun lex_le :: "string \<Rightarrow> string \<Rightarrow> bool" where
  "lex_le [] t = True"
| "lex_le (a # s) [] = False"
| "lex_le (a # s) (b # t) =
     ((of_char a :: nat) < of_char b \<or> (a = b \<and> lex_le s t))"

text \<open>
  \<open>ranks_before x y\<close>: the evidence \<open>x\<close> may stand before \<open>y\<close> in an evidence set.
\<close>

definition ranks_before :: "Chunk \<times> 's \<Rightarrow> Chunk \<times> ('s::linorder) \<Rightarrow> bool" where
  "ranks_before x y \<longleftrightarrow>
     snd x > snd y \<or>
     (snd x = snd y \<and>
       (publish_date (fst x) > publish_date (fst y) \<or>
        (publish_date (fst x) = publish_date (fst y) \<and>
           lex_le (chunk_id (fst x)) (chunk_id (fst y)))))"

fun insert_ranked :: "Chunk \<times> 's \<Rightarrow> (Chunk \<times> ('s::linorder)) list \<Rightarrow> (Chunk \<times> 's) list" where
  "insert_ranked x [] = [x]"
| "insert_ranked x (y # ys) =
     (if ranks_before x y then x # y # ys else y # insert_ranked x ys)"

fun rank_sort :: "(Chunk \<times> ('s::linorder)) list \<Rightarrow> (Chunk \<times> 's) list" where
  "rank_sort [] = []"
| "rank_sort (x # xs) = insert_ranked x (rank_sort xs)"

definition candidates ::
  "('v \<Rightarrow> 'v \<Rightarrow> 's) \<Rightarrow> 'v \<Rightarrow> (Chunk \<Rightarrow> bool) \<Rightarrow> (Chunk \<times> 'v) list \<Rightarrow> (Chunk \<times> 's) list" where
  "candidates sim qv filters index =
     map (\<lambda>(c, v). (c, sim qv v)) (filter (\<lambda>(c, v). filters c) index)"

text \<open>
  Modelled from the spec: \<open>retrieve(query_text, k, filters)\<close> of section 4.2, whose code is
  not part of the sources.  A query that cannot be embedded gives \<open>EmbeddingUnavailable\<close>
  and no evidence.
\<close>

definition retrieve ::
  "(string \<Rightarrow> 'v option) \<Rightarrow> ('v \<Rightarrow> 'v \<Rightarrow> 's::linorder) \<Rightarrow> (Chunk \<times> 'v) list
    \<Rightarrow> string \<Rightarrow> nat \<Rightarrow> (Chunk \<Rightarrow> bool) \<Rightarrow> retrieval_error + (Chunk \<times> 's) list" where
  "retrieve embed_query sim index query_text k filters =
     (case embed_query query_text of
        None \<Rightarrow> Inl EmbeddingUnavailable
      | Some qv \<Rightarrow> Inr (take k (rank_sort (candidates sim qv filters index))))"

text \<open>
  An index snapshot maps each chunk id to one vector with its metadata: no two entries of
  the list share a chunk id.
\<close>

definition index_ok :: "(Chunk \<times> 'v) list \<Rightarrow> bool" where
  "index_ok index \<longleftrightarrow> distinct (map (\<lambda>(c, v). chunk_id c) index)"

text \<open>Three chunks for the concrete check: two tie on the score, and on the date as well.\<close>

definition demo_chunk :: "string \<Rightarrow> string \<Rightarrow> nat \<Rightarrow> Chunk" where
  "demo_chunk i src d =
     \<lparr>chunk_id = i, article_id = ''a'', ordinal = 0, text_span = ''t'', source_name = src,
      publish_date = d\<rparr>"

definition demo_index :: "(Chunk \<times> int) list" where
  "demo_index =
     [(demo_chunk ''c2'' ''reuters'' 10, 5), (demo_chunk ''c9'' ''blog'' 30, 9),
      (demo_chunk ''c1'' ''reuters'' 10, 5), (demo_chunk ''c3'' ''ap'' 20, 5),
      (demo_chunk ''c4'' ''ap'' 5, 7)]"

definition demo_sim :: "int \<Rightarrow> int \<Rightarrow> int" where
  "demo_sim qv v = qv * v"

section \<open>Embedding store (spec 4.1)\<close>

text \<open>
  Modelled from the spec: the embedding store of the back end (\<open>rag_optimized.py\<close>,
  \<open>embedding_cache.py\<close>) is not part of the sources.  The definitions follow sections 4.1
  and 5: a fast tier and a durable snapshot, both maps from chunk ids to vectors, over a
  source of truth that computes the vector of a chunk.  The source of truth is the function
  \<open>embed_chunk\<close>.  Each request meets its own conditions: \<open>fast_up\<close>, whether the fast tier
  is reachable (or enabled at all); \<open>durable_up\<close>, whether the lock on the durable snapshot
  is acquired in time, so that the snapshot can be read and written; \<open>source_up\<close>, whether
  the computation of the source of truth succeeds for a chunk.

  \<open>get_or_compute\<close> looks every requested chunk up in the fast tier, then in the durable
  snapshot; the chunks found in neither are computed by the source of truth.  A tier that
  is not available is skipped for reading and for writing: a request that cannot lock the
  snapshot falls back to the source of truth, and its write to the snapshot is dropped.  A
  computed vector is written to the durable snapshot and to the fast tier, a vector found
  in the snapshot is written to the fast tier.  The result lists, for every requested chunk,
  the vector with the tier that served it, or nothing when every tier failed for that chunk
  (\<open>EmbeddingUnavailable\<close> for this chunk alone).
\<close>

datatype tier = FastTier | DurableTier | SourceOfTruth

record 'v EmbeddingStore =
  fast_tier :: "string \<rightharpoonup> 'v"
  durable_tier :: "string \<rightharpoonup> 'v"

definition empty_store :: "'v EmbeddingStore" where
  "empty_store = \<lparr>fast_tier = Map.empty, durable_tier = Map.empty\<rparr>"

definition served ::
  "(string \<Rightarrow> 'v) \<Rightarrow> bool \<Rightarrow> bool \<Rightarrow> (string \<Rightarrow> bool) \<Rightarrow> 'v EmbeddingStore \<Rightarrow> string
    \<Rightarrow> (tier \<times> 'v) option" where
  "served embed_chunk fast_up durable_up source_up store c =
     (case (if fast_up then fast_tier store c else None) of
        Some v \<Rightarrow> Some (FastTier, v)
      | None \<Rightarrow>
          (case (if durable_up then durable_tier store c else None) of
             Some v \<Rightarrow> Some (DurableTier, v)
           | None \<Rightarrow> if source_up c then Some (SourceOfTruth, embed_chunk c) else None))"

text \<open>
  Modelled from the spec: \<open>get_or_compute(chunk_ids)\<close> of section 4.1, whose code is not part
  of the sources.
\<close>

definition get_or_compute ::
  "(string \<Rightarrow> 'v) \<Rightarrow> bool \<Rightarrow> bool \<Rightarrow> (string \<Rightarrow> bool) \<Rightarrow> string list \<Rightarrow> 'v EmbeddingStore
    \<Rightarrow> (string \<times> (tier \<times> 'v) option) list \<times> 'v EmbeddingStore" where
  "get_or_compute embed_chunk fast_up durable_up source_up chunk_ids store =
     (let found = served embed_chunk fast_up durable_up source_up store
      in (map (\<lambda>c. (c, found c)) chunk_ids,
          \<lparr>fast_tier =
             (\<lambda>c. if fast_up \<and> c \<in> set chunk_ids
                  then (case found c of Some (t, v) \<Rightarrow> Some v | None \<Rightarrow> fast_tier store c)
                  else fast_tier store c),
           durable_tier =
             (\<lambda>c. if durable_up \<and> c \<in> set chunk_ids
                  then (case found c of
                          Some (SourceOfTruth, v) \<Rightarrow> Some v
                        | _ \<Rightarrow> durable_tier store c)
                  else durable_tier store c)\<rparr>))"

text \<open>
  What happens to a store over time: requests, each under its own conditions, the loss of
  the content of the fast tier and the loss of the durable snapshot.  \<open>serve\<close> runs the
  events from a store and lists the results of the requests.  \<open>without_fast\<close> is the same
  history with the fast tier disabled.
\<close>

datatype store_event =
    Request bool bool "string \<Rightarrow> bool" "string list"
  | FastTierLost
  | DurableTierLost

fun serve ::
  "(string \<Rightarrow> 'v) \<Rightarrow> store_event list \<Rightarrow> 'v EmbeddingStore
    \<Rightarrow> (string \<times> (tier \<times> 'v) option) list list" where
  "serve embed_chunk [] store = []"
| "serve embed_chunk (Request fast_up durable_up source_up chunk_ids # evs) store =
     (case get_or_compute embed_chunk fast_up durable_up source_up chunk_ids store of
        (out, store') \<Rightarrow> out # serve embed_chunk evs store')"
| "serve embed_chunk (FastTierLost # evs) store =
     serve embed_chunk evs (store\<lparr>fast_tier := Map.empty\<rparr>)"
| "serve embed_chunk (DurableTierLost # evs) store =
     serve embed_chunk evs (store\<lparr>durable_tier := Map.empty\<rparr>)"

fun without_fast :: "store_event \<Rightarrow> store_event" where
  "without_fast (Request fast_up durable_up source_up chunk_ids) =
     Request False durable_up source_up chunk_ids"
| "without_fast FastTierLost = FastTierLost"
| "without_fast DurableTierLost = DurableTierLost"

definition vectors :: "(string \<times> (tier \<times> 'v) option) list \<Rightarrow> (string \<times> 'v option) list" where
  "vectors out = map (\<lambda>(c, r). (c, map_option snd r)) out"

text \<open>
  An event leaves the durable snapshot intact when it is not its loss and, for a request,
  when the snapshot is available to it.  The source of truth is reachable in an event when
  it succeeds for every chunk the request asks for.
\<close>

fun durable_intact :: "store_event \<Rightarrow> bool" where
  "durable_intact (Request fast_up durable_up source_up chunk_ids) = durable_up"
| "durable_intact FastTierLost = True"
| "durable_intact DurableTierLost = False"

fun source_reachable :: "store_event \<Rightarrow> bool" where
  "source_reachable (Request fast_up durable_up source_up chunk_ids) = list_all source_up chunk_ids"
| "source_reachable FastTierLost = True"
| "source_reachable DurableTierLost = True"

fun requested :: "store_event list \<Rightarrow> string list list" where
  "requested [] = []"
| "requested (Request fast_up durable_up source_up chunk_ids # evs) = chunk_ids # requested evs"
| "requested (FastTierLost # evs) = requested evs"
| "requested (DurableTierLost # evs) = requested evs"

text \<open>
  The chunk index is built from the store: the corpus chunks whose vector the store gave,
  each with its vector.  \<open>retrieve_with_store\<close> serves a history of events, builds the
  index from a last request for all chunks of the corpus, and retrieves from that index.
\<close>

definition build_index :: "Chunk list \<Rightarrow> (string \<times> 'v option) list \<Rightarrow> (Chunk \<times> 'v) list" where
  "build_index corpus vs =
     concat (map (\<lambda>c. case map_of vs (chunk_id c) of
                          Some (Some v) \<Rightarrow> [(c, v)]
                        | _ \<Rightarrow> []) corpus)"

definition retrieve_with_store ::
  "(string \<Rightarrow> 'v) \<Rightarrow> store_event list \<Rightarrow> bool \<Rightarrow> bool \<Rightarrow> (string \<Rightarrow> bool) \<Rightarrow> Chunk list
    \<Rightarrow> (string \<Rightarrow> 'v option) \<Rightarrow> ('v \<Rightarrow> 'v \<Rightarrow> 's::linorder) \<Rightarrow> string \<Rightarrow> nat \<Rightarrow> (Chunk \<Rightarrow> bool)
    \<Rightarrow> retrieval_error + (Chunk \<times> 's) list" where
  "retrieve_with_store embed_chunk history fast_up durable_up source_up corpus
       embed_query sim query_text k filters =
     (let outs = serve embed_chunk
                   (history @ [Request fast_up durable_up source_up (map chunk_id corpus)])
                   empty_store
      in retrieve embed_query sim (build_index corpus (last (map vectors outs))) query_text k filters)"

text \<open>
  Two properties of a store.  The first is kept by every event: every cached vector is the
  vector the source of truth computes.  The second is kept while the durable snapshot is
  intact: whatever the fast tier holds the durable snapshot holds as well.
\<close>

definition coherent :: "(string \<Rightarrow> 'v) \<Rightarrow> 'v EmbeddingStore \<Rightarrow> bool" where
  "coherent embed_chunk store \<longleftrightarrow>
     (\<forall>c v. fast_tier store c = Some v \<longrightarrow> v = embed_chunk c) \<and>
     (\<forall>c v. durable_tier store c = Some v \<longrightarrow> v = embed_chunk c)"

definition fast_in_durable :: "'v EmbeddingStore \<Rightarrow> bool" where
  "fast_in_durable store \<longleftrightarrow> (\<forall>c v. fast_tier store c = Some v \<longrightarrow> durable_tier store c = Some v)"

text \<open>
  Histories for the concrete checks.  In \<open>demo_history\<close> the durable snapshot is intact while
  the fast tier is up, lost and down.  In \<open>source_history\<close> the snapshot is unavailable and
  lost while the source of truth answers every request.  In \<open>outage_history\<close> a chunk is
  computed while the snapshot cannot be locked, and asked for again during an outage of the
  source of truth.
\<close>

definition demo_embed :: "string \<Rightarrow> int" where
  "demo_embed c = int (sum_list (map of_char c))"

definition source_always :: "string \<Rightarrow> bool" where
  "source_always c = True"

definition source_never :: "string \<Rightarrow> bool" where
  "source_never c = False"

definition demo_embed_query :: "string \<Rightarrow> int option" where
  "demo_embed_query q = Some 1"

definition all_chunks :: "Chunk \<Rightarrow> bool" where
  "all_chunks c = True"

definition demo_history :: "store_event list" where
  "demo_history =
     [Request True True (\<lambda>c. c \<noteq> ''c4'') [''c1'', ''c2'', ''c4''],
      Request True True source_never [''c1'', ''c3''],
      FastTierLost,
      Request True True source_always [''c2'', ''c1'', ''c4''],
      Request False True source_never [''c4'', ''c3'']]"

definition source_history :: "store_event list" where
  "source_history =
     [Request True False source_always [''c1'', ''c2''],
      Request True True source_always [''c2'', ''c3''],
      DurableTierLost,
      Request True True source_always [''c1'', ''c3'']]"

definition outage_history :: "store_event list" where
  "outage_history =
     [Request True False source_always [''c1''],
      Request True True source_never [''c1'']]"

definition outage_corpus :: "Chunk list" where
  "outage_corpus = [demo_chunk ''c1'' ''reuters'' 10]"

section \<open>Council (spec 4.4 and 5)\<close>

text \<open>
  Modelled from the spec: the council of the back end (\<open>inference/council.py\<close>) is not part
  of the sources.  The definitions follow sections 4.4 and 5: the state machine
  \<open>Idle\<close>, \<open>Dispatching\<close>, \<open>Collecting\<close>, \<open>Judging\<close>, \<open>Done\<close>, with time counted in ticks of a
  clock that starts when the calls are dispatched.  A provider call is given by what it
  does on its own: the tick at which it reaches its terminal state (\<open>None\<close> when it never
  does) and the terminal result, an error of the closed taxonomy or an answer.  Collecting
  waits until every call has terminated or the global ceiling is reached, whichever is
  first; a call still in flight then counts as failed by timeout.  Without a successful
  call the machine is done with the verdict that says so; otherwise the judge is called
  once, and a judge that fails gives the degraded verdict built from the answers.
\<close>

datatype provider_error = RateLimited | Timeout | AuthError | Unavailable | Malformed

record provider_call =
  provider :: string
  finishes :: "nat option"
  outcome :: "provider_error + string"

datatype call_status = Ok | Failed provider_error | TimedOut

record call_result =
  cr_provider :: string
  cr_status :: call_status
  cr_latency :: nat
  cr_answer :: "string option"

record Verdict =
  synthesis :: string
  agreement_points :: "string list"
  disagreement_points :: "string list"
  ranking :: "string list"
  confidence :: rat
  best :: "string option"
  worst :: "string option"

record council_config =
  global_ceiling :: nat
  judge_call :: "(string \<times> string) list \<Rightarrow> Verdict option \<times> nat"
  low_confidence :: rat

datatype council_state =
    Idle
  | Dispatching
  | Collecting nat
  | Judging "call_result list" nat
  | Done "call_result list" Verdict nat

definition terminated_by :: "nat \<Rightarrow> provider_call \<Rightarrow> bool" where
  "terminated_by t call = (case finishes call of Some f \<Rightarrow> f \<le> t | None \<Rightarrow> False)"

definition collect :: "nat \<Rightarrow> provider_call \<Rightarrow> call_result" where
  "collect t call =
     (case finishes call of
        Some f \<Rightarrow>
          if f \<le> t then
            (case outcome call of
               Inr a \<Rightarrow> \<lparr>cr_provider = provider call, cr_status = Ok, cr_latency = f,
                         cr_answer = Some a\<rparr>
             | Inl e \<Rightarrow> \<lparr>cr_provider = provider call, cr_status = Failed e, cr_latency = f,
                         cr_answer = None\<rparr>)
          else \<lparr>cr_provider = provider call, cr_status = TimedOut, cr_latency = t,
                 cr_answer = None\<rparr>
      | None \<Rightarrow> \<lparr>cr_provider = provider call, cr_status = TimedOut, cr_latency = t,
                  cr_answer = None\<rparr>)"

definition is_ok :: "call_result \<Rightarrow> bool" where
  "is_ok r \<longleftrightarrow> cr_status r = Ok"

definition ok_answers :: "call_result list \<Rightarrow> (string \<times> string) list" where
  "ok_answers rs =
     concat (map (\<lambda>r. case cr_answer r of
                          Some a \<Rightarrow> if is_ok r then [(cr_provider r, a)] else []
                        | None \<Rightarrow> []) rs)"

definition no_deliberation :: Verdict where
  "no_deliberation =
     \<lparr>synthesis = ''No deliberation was possible: no provider returned an answer.'',
      agreement_points = [], disagreement_points = [], ranking = [], confidence = 0,
      best = None, worst = None\<rparr>"

fun longest :: "(string \<times> string) list \<Rightarrow> string" where
  "longest [] = []"
| "longest ((p, a) # rest) = (if length (longest rest) > length a then longest rest else a)"

definition degraded :: "council_config \<Rightarrow> call_result list \<Rightarrow> Verdict" where
  "degraded cfg rs =
     \<lparr>synthesis = longest (ok_answers rs), agreement_points = [], disagreement_points = [],
      ranking = map fst (ok_answers rs), confidence = low_confidence cfg,
      best = None, worst = None\<rparr>"

definition decide :: "provider_call list \<Rightarrow> nat \<Rightarrow> council_state" where
  "decide calls t =
     (let rs = map (collect t) calls
      in if list_ex is_ok rs then Judging rs t else Done rs no_deliberation t)"

text \<open>
  Modelled from the spec: one transition of the council's state machine of section 4.4,
  whose code is not part of the sources.
\<close>

fun council_step :: "council_config \<Rightarrow> provider_call list \<Rightarrow> council_state \<Rightarrow> council_state" where
  "council_step cfg calls Idle = Dispatching"
| "council_step cfg calls Dispatching = Collecting 0"
| "council_step cfg calls (Collecting t) =
     (if list_all (terminated_by t) calls \<or> global_ceiling cfg \<le> t then decide calls t
      else Collecting (Suc t))"
| "council_step cfg calls (Judging rs t) =
     (case judge_call cfg (ok_answers rs) of
        (Some v, d) \<Rightarrow> Done rs v (t + d)
      | (None, d) \<Rightarrow> Done rs (degraded cfg rs) (t + d))"
| "council_step cfg calls (Done rs v t) = Done rs v t"

fun council_run ::
  "council_config \<Rightarrow> provider_call list \<Rightarrow> nat \<Rightarrow> council_state \<Rightarrow> council_state" where
  "council_run cfg calls 0 s = s"
| "council_run cfg calls (Suc n) s = council_run cfg calls n (council_step cfg calls s)"

text \<open>
  A deliberation runs the machine from \<open>Idle\<close>.  Two steps dispatch, at most
  \<open>global_ceiling + 1\<close> steps collect, one step judges: \<open>global_ceiling + 4\<close> steps are
  enough to be done, which is proved below and not assumed.
\<close>

definition deliberate :: "council_config \<Rightarrow> provider_call list \<Rightarrow> council_state" where
  "deliberate cfg calls = council_run cfg calls (global_ceiling cfg + 4) Idle"

definition succeeds :: "nat \<Rightarrow> provider_call \<Rightarrow> bool" where
  "succeeds limit call \<longleftrightarrow> terminated_by limit call \<and> (case outcome call of Inr a \<Rightarrow> True | Inl e \<Rightarrow> False)"

text \<open>A council for the concrete check: one provider is rate limited, one times out, one hangs.\<close>

definition demo_config :: council_config where
  "demo_config =
     \<lparr>global_ceiling = 5,
      judge_call = (\<lambda>answers. (Some \<lparr>synthesis = ''judged'', agreement_points = [],
                        disagreement_points = [], ranking = map fst answers, confidence = 1,
                        best = None, worst = None\<rparr>, 2)),
      low_confidence = 1 / 4\<rparr>"

definition demo_calls :: "provider_call list" where
  "demo_calls =
     [\<lparr>provider = ''openai'', finishes = Some 1, outcome = Inl RateLimited\<rparr>,
      \<lparr>provider = ''deepseek'', finishes = Some 9, outcome = Inr ''yes, 500 layoffs''\<rparr>,
      \<lparr>provider = ''anthropic'', finishes = None, outcome = Inl Unavailable\<rparr>]"

section \<open>Bounded, newest-first lists\<close>

lemma bookmark_step_within: "bookmarks_within M s \<Longrightarrow> bookmarks_within M (bookmark_step M x s)"
  by (cases x)
    (auto simp: bookmarks_within_def addBookmark_def removeBookmark_def removeByQuery_def
      addArenaBookmark_def removeArenaBookmark_def intro: le_trans [OF length_filter_le])

lemma bookmark_run_within: "bookmarks_within M s \<Longrightarrow> bookmarks_within M (bookmark_run M xs s)"
  by (induction xs arbitrary: s) (auto simp: bookmark_step_within)

lemma history_step_within: "history_within M s \<Longrightarrow> history_within M (history_step M cd x s)"
  by (cases x)
    (auto simp: history_within_def addEntry_def removeEntry_def clearHistory_def
      addArenaEntry_def removeArenaEntry_def clearArenaHistory_def
      intro: le_trans [OF length_filter_le])

lemma history_run_within: "history_within M s \<Longrightarrow> history_within M (history_run M cd xs s)"
  by (induction xs arbitrary: s) (auto simp: history_step_within)

text \<open>
  Claim C8.  Each add operation of the two stores puts the new record in front of the list it
  works on and cuts that list to the cap: the result is the new record followed by the first
  \<open>cap - 1\<close> older records (for a positive cap), and it is never longer than the cap, whatever
  the store held before.  No other operation makes a list longer, so from a store within the
  caps, and so from the empty store a session starts with, every sequence of operations leaves
  the bookmark lists at most \<open>BOOKMARKS_MAX\<close> long and the history lists at most
  \<open>SEARCH_HISTORY_MAX\<close> long.
\<close>

theorem add_prepends_and_truncates:
  fixes BOOKMARKS_MAX SEARCH_HISTORY_MAX :: nat
    and b :: "'f BookmarkState" and h :: "('f, 'd) SearchHistoryState"
  shows
    "(0 < BOOKMARKS_MAX \<longrightarrow>
        bookmarks (addBookmark BOOKMARKS_MAX gid now q r note md b) =
          \<lparr>bm_id = gid, bm_query = q, bm_response = r, bm_savedAt = now, bm_note = note,
             bm_mode = md\<rparr> # take (BOOKMARKS_MAX - 1) (bookmarks b) \<and>
        arenaBookmarks (addArenaBookmark BOOKMARKS_MAX gid now q ar note b) =
          \<lparr>ab_id = gid, ab_query = q, ab_response = ar, ab_savedAt = now, ab_note = note\<rparr>
            # take (BOOKMARKS_MAX - 1) (arenaBookmarks b)) \<and>
     (0 < SEARCH_HISTORY_MAX \<longrightarrow>
        hd (entries (addEntry SEARCH_HISTORY_MAX gid now q ro md h)) =
          \<lparr>he_id = gid, he_query = q, he_timestamp = now, he_response = ro,
             he_consensusScore = map_option consensus_score ro,
             he_factsCount = (case ro of None \<Rightarrow> 0 | Some x \<Rightarrow> length (facts x)),
             he_mode = (case md of
                          Some m \<Rightarrow> m
                        | None \<Rightarrow> (if Option.bind ro mode = Some Fast then Fast else Consensus)),
             he_type = ''search''\<rparr> \<and>
        tl (entries (addEntry SEARCH_HISTORY_MAX gid now q ro md h)) =
          take (SEARCH_HISTORY_MAX - 1) (entries h) \<and>
        arenaEntries (addArenaEntry SEARCH_HISTORY_MAX cd gid now q ar h) =
          \<lparr>ae_id = gid, ae_query = q, ae_timestamp = now, ae_response = ar,
             ae_bestModel = judge_best ar, ae_worstModel = judge_worst ar,
             ae_modelsCount = meta_succeeded ar, ae_disruption = cd ar\<rparr>
            # take (SEARCH_HISTORY_MAX - 1) (arenaEntries h)) \<and>
     length (bookmarks (addBookmark BOOKMARKS_MAX gid now q r note md b)) \<le> BOOKMARKS_MAX \<and>
     length (arenaBookmarks (addArenaBookmark BOOKMARKS_MAX gid now q ar note b)) \<le> BOOKMARKS_MAX \<and>
     length (entries (addEntry SEARCH_HISTORY_MAX gid now q ro md h)) \<le> SEARCH_HISTORY_MAX \<and>
     length (arenaEntries (addArenaEntry SEARCH_HISTORY_MAX cd gid now q ar h)) \<le> SEARCH_HISTORY_MAX \<and>
     (bookmarks_within BOOKMARKS_MAX b \<longrightarrow>
        bookmarks_within BOOKMARKS_MAX (bookmark_run BOOKMARKS_MAX bops b)) \<and>
     (history_within SEARCH_HISTORY_MAX h \<longrightarrow>
        history_within SEARCH_HISTORY_MAX (history_run SEARCH_HISTORY_MAX cd hops h)) \<and>
     bookmarks_within BOOKMARKS_MAX
       (bookmark_run BOOKMARKS_MAX bops (bookmark_init :: 'f BookmarkState)) \<and>
     history_within SEARCH_HISTORY_MAX
       (history_run SEARCH_HISTORY_MAX cd hops (history_init :: ('f, 'd) SearchHistoryState))"
proof -
  have front: "0 < n \<Longrightarrow> take n (x # xs) = x # take (n - 1) xs" for n and x :: 'x and xs
    by (cases n) simp_all
  have b0: "bookmarks_within BOOKMARKS_MAX (bookmark_init :: 'f BookmarkState)"
    by (simp add: bookmarks_within_def bookmark_init_def)
  have h0: "history_within SEARCH_HISTORY_MAX (history_init :: ('f, 'd) SearchHistoryState)"
    by (simp add: history_within_def history_init_def)
  show ?thesis
    using bookmark_run_within [of BOOKMARKS_MAX b bops]
      history_run_within [of SEARCH_HISTORY_MAX h cd hops]
      bookmark_run_within [OF b0, of bops] history_run_within [OF h0, of cd hops]
    by (simp add: addBookmark_def addArenaBookmark_def addEntry_def addArenaEntry_def front)
qed

theorem add_prepends_and_truncates_witness:
  "0 < (2::nat) \<and>
   bookmarks_within 2
     \<lparr>bookmarks = [], arenaBookmarks =
        [\<lparr>ab_id = ''a'', ab_query = ''x'', ab_response =
            \<lparr>judge_best = ''m1'', judge_worst = ''m2'', meta_succeeded = 2\<rparr>,
           ab_savedAt = 1, ab_note = None\<rparr>] \<rparr> \<and>
   history_within 2 (history_init :: (nat, nat) SearchHistoryState) \<and>
   map ab_id (arenaBookmarks
     (bookmark_run 2
        [AddArenaBookmark ''b'' 2 ''y'' \<lparr>judge_best = ''m1'', judge_worst = ''m2'', meta_succeeded = 2\<rparr> None,
         AddArenaBookmark ''c'' 3 ''z'' \<lparr>judge_best = ''m1'', judge_worst = ''m2'', meta_succeeded = 2\<rparr> None]
        (\<lparr>bookmarks = [], arenaBookmarks =
           [\<lparr>ab_id = ''a'', ab_query = ''x'', ab_response =
               \<lparr>judge_best = ''m1'', judge_worst = ''m2'', meta_succeeded = 2\<rparr>,
              ab_savedAt = 1, ab_note = None\<rparr>] \<rparr> :: nat BookmarkState))) = [''c'', ''b''] \<and>
   bookmarks_within 2
     (bookmark_run 2
        [AddArenaBookmark ''b'' 2 ''y'' \<lparr>judge_best = ''m1'', judge_worst = ''m2'', meta_succeeded = 2\<rparr> None,
         AddArenaBookmark ''c'' 3 ''z'' \<lparr>judge_best = ''m1'', judge_worst = ''m2'', meta_succeeded = 2\<rparr> None]
        (\<lparr>bookmarks = [], arenaBookmarks =
           [\<lparr>ab_id = ''a'', ab_query = ''x'', ab_response =
               \<lparr>judge_best = ''m1'', judge_worst = ''m2'', meta_succeeded = 2\<rparr>,
              ab_savedAt = 1, ab_note = None\<rparr>] \<rparr> :: nat BookmarkState)) \<and>
   history_within 2
     (history_run 2 (\<lambda>_. 0::nat)
        [AddEntry ''e1'' 1 ''q1'' None None, AddEntry ''e2'' 2 ''q2'' None (Some Fast),
         AddEntry ''e3'' 3 ''q3'' None None]
        (history_init :: (nat, nat) SearchHistoryState))"
  using add_prepends_and_truncates
    [where BOOKMARKS_MAX = 2 and SEARCH_HISTORY_MAX = 2
       and b = "\<lparr>bookmarks = [], arenaBookmarks =
           [\<lparr>ab_id = ''a'', ab_query = ''x'', ab_response =
               \<lparr>judge_best = ''m1'', judge_worst = ''m2'', meta_succeeded = 2\<rparr>,
              ab_savedAt = 1, ab_note = None\<rparr>] \<rparr> :: nat BookmarkState"
       and h = "history_init :: (nat, nat) SearchHistoryState"
       and cd = "\<lambda>_. 0::nat"
       and bops = "[AddArenaBookmark ''b'' 2 ''y'' \<lparr>judge_best = ''m1'', judge_worst = ''m2'', meta_succeeded = 2\<rparr> None,
         AddArenaBookmark ''c'' 3 ''z'' \<lparr>judge_best = ''m1'', judge_worst = ''m2'', meta_succeeded = 2\<rparr> None]"
       and hops = "[AddEntry ''e1'' 1 ''q1'' None None, AddEntry ''e2'' 2 ''q2'' None (Some Fast),
         AddEntry ''e3'' 3 ''q3'' None None]"]
  by (simp add: bookmarks_within_def history_within_def history_init_def addArenaBookmark_def)

section \<open>The cap on selected sources\<close>

lemma toggle_within: "fcard s \<le> MAX_SOURCES \<Longrightarrow> fcard (toggle n s) \<le> MAX_SOURCES"
proof -
  assume le: "fcard s \<le> MAX_SOURCES"
  have "fcard (s |-| {|n|}) \<le> fcard s"
    by (rule fcard_mono) auto
  with le show ?thesis
    by (auto simp: toggle_def fcard_finsert_if)
qed

lemma add_names_within: "fcard s \<le> MAX_SOURCES \<Longrightarrow> fcard (add_names ns s) \<le> MAX_SOURCES"
  by (induction ns arbitrary: s) (auto simp: fcard_finsert_if)

lemma add_names_at_cap: "MAX_SOURCES \<le> fcard s \<Longrightarrow> add_names ns s = s"
  by (cases ns) auto

lemma fold_delete_subset: "fold (\<lambda>n nxt. nxt |-| {|n|}) ns s |\<subseteq>| s"
  by (induction ns arbitrary: s) auto

lemma selectAll_within:
  "fcard s \<le> MAX_SOURCES \<Longrightarrow> fcard (selectAllInCountry c s) \<le> MAX_SOURCES"
  using fcard_mono [OF fold_delete_subset, of "map name (country_sources c)" s]
  by (auto simp: selectAllInCountry_def Let_def add_names_within)

lemma selection_step_within:
  "fcard s \<le> MAX_SOURCES \<Longrightarrow> fcard (selection_step x s) \<le> MAX_SOURCES"
  by (cases x) (simp_all add: toggle_within selectAll_within)

lemma selection_run_within:
  "fcard s \<le> MAX_SOURCES \<Longrightarrow> fcard (selection_run xs s) \<le> MAX_SOURCES"
  by (induction xs arbitrary: s) (simp_all add: selection_step_within)

text \<open>
  Claim C9.  From a selection of at most \<open>MAX_SOURCES = 20\<close> names (the empty selection the
  page starts with is one), every sequence of \<open>toggle\<close> and \<open>selectAllInCountry\<close> leaves at
  most 20 names selected.  Toggling a selected name removes it; toggling an unselected name
  when 20 or more are selected returns the selection as it was, and below the cap adds the
  name; the bulk select adds nothing once the selection has reached the cap.
\<close>

theorem selection_never_exceeds_cap:
  "MAX_SOURCES = 20 \<and>
   (fcard sel \<le> MAX_SOURCES \<longrightarrow> fcard (selection_run ops sel) \<le> MAX_SOURCES) \<and>
   fcard (selection_run ops {||}) \<le> MAX_SOURCES \<and>
   (nm |\<in>| sel \<longrightarrow> toggle nm sel = sel |-| {|nm|}) \<and>
   (nm |\<notin>| sel \<and> MAX_SOURCES \<le> fcard sel \<longrightarrow> toggle nm sel = sel) \<and>
   (nm |\<notin>| sel \<and> fcard sel < MAX_SOURCES \<longrightarrow> toggle nm sel = finsert nm sel) \<and>
   (MAX_SOURCES \<le> fcard sel \<longrightarrow> add_names ns sel = sel) \<and>
   (MAX_SOURCES \<le> fcard sel \<and> \<not> list_all (\<lambda>n. n |\<in>| sel) (map name (country_sources c)) \<longrightarrow>
      selectAllInCountry c sel = sel)"
  using selection_run_within [of sel ops] selection_run_within [of "{||}" ops]
  by (simp add: toggle_def add_names_at_cap selectAllInCountry_def Let_def MAX_SOURCES_def
      fcard_fempty)

lemma fcard_twenty: "fcard twenty_sources = 20"
  unfolding twenty_sources_def by code_simp

theorem selection_never_exceeds_cap_witness:
  "fcard twenty_sources \<le> MAX_SOURCES \<and>
   ''x'' |\<notin>| twenty_sources \<and> MAX_SOURCES \<le> fcard twenty_sources \<and>
   ''s'' |\<in>| twenty_sources \<and>
   \<not> list_all (\<lambda>n. n |\<in>| twenty_sources)
       (map name (country_sources \<lparr>code = ''es'', country_sources = [\<lparr>name = ''x''\<rparr>, \<lparr>name = ''y''\<rparr>]\<rparr>)) \<and>
   toggle ''x'' twenty_sources = twenty_sources \<and>
   toggle ''s'' twenty_sources = twenty_sources |-| {|''s''|} \<and>
   selectAllInCountry \<lparr>code = ''es'', country_sources = [\<lparr>name = ''x''\<rparr>, \<lparr>name = ''y''\<rparr>]\<rparr>
     twenty_sources = twenty_sources \<and>
   fcard (selection_run
            [Toggle ''x'',
             SelectAllInCountry \<lparr>code = ''es'', country_sources = [\<lparr>name = ''x''\<rparr>, \<lparr>name = ''y''\<rparr>]\<rparr>,
             Toggle ''s'', Toggle ''x'', Toggle ''y'']
            twenty_sources) \<le> MAX_SOURCES"
proof -
  have s_in: "''s'' |\<in>| twenty_sources"
    unfolding twenty_sources_def by code_simp
  have x_out: "''x'' |\<notin>| twenty_sources"
    unfolding twenty_sources_def by code_simp
  have full: "MAX_SOURCES \<le> fcard twenty_sources" "fcard twenty_sources \<le> MAX_SOURCES"
    by (simp_all add: fcard_twenty MAX_SOURCES_def)
  have not_all: "\<not> list_all (\<lambda>n. n |\<in>| twenty_sources)
       (map name (country_sources \<lparr>code = ''es'', country_sources = [\<lparr>name = ''x''\<rparr>, \<lparr>name = ''y''\<rparr>]\<rparr>))"
    using x_out by simp
  note at_x = selection_never_exceeds_cap
      [of twenty_sources
        "[Toggle ''x'',
          SelectAllInCountry \<lparr>code = ''es'', country_sources = [\<lparr>name = ''x''\<rparr>, \<lparr>name = ''y''\<rparr>]\<rparr>,
          Toggle ''s'', Toggle ''x'', Toggle ''y'']"
        "''x''" "[]" "\<lparr>code = ''es'', country_sources = [\<lparr>name = ''x''\<rparr>, \<lparr>name = ''y''\<rparr>]\<rparr>"]
  note at_s = selection_never_exceeds_cap
      [of twenty_sources "[]" "''s''" "[]" "\<lparr>code = ''es'', country_sources = []\<rparr>"]
  from at_x full x_out not_all at_s s_in show ?thesis
    by blast
qed

section \<open>The event stream of the consensus hook\<close>

lemma split_blank_nonempty [simp]: "split_blank s \<noteq> []"
  by (induction s rule: split_blank.induct) (auto split: list.splits)

lemma split_blank_single: "split_blank s = [p] \<Longrightarrow> p = s"
  by (induction s arbitrary: p rule: split_blank.induct) (auto split: list.splits if_splits)

lemma split_blank_append:
  "split_blank (x @ y) = butlast (split_blank x) @ split_blank (last (split_blank x) @ y)"
proof (induction x rule: split_blank.induct)
  case 1
  then show ?case by simp
next
  case (2 c)
  then show ?case by simp
next
  case (3 c d s)
  show ?case
  proof (cases "c = LF \<and> d = LF")
    case True
    with 3 show ?thesis by simp
  next
    case False
    obtain p ps where ps: "split_blank (d # s) = p # ps"
      by (cases "split_blank (d # s)") auto
    from 3(2) [OF False] ps
    have ih: "split_blank (d # s @ y) = butlast (p # ps) @ split_blank (last (p # ps) @ y)"
      by simp
    show ?thesis
    proof (cases ps)
      case Nil
      with ps have "p = d # s" by (simp add: split_blank_single)
      with Nil ps False show ?thesis
        by (auto split: list.splits)
    next
      case (Cons q qs)
      with ih ps False show ?thesis
        by (auto split: list.splits)
    qed
  qed
qed

lemma split_blank_last_single: "split_blank (last (split_blank s)) = [last (split_blank s)]"
proof (induction s rule: split_blank.induct)
  case 1
  then show ?case by simp
next
  case (2 c)
  then show ?case by simp
next
  case (3 c d s)
  show ?case
  proof (cases "c = LF \<and> d = LF")
    case True
    with 3 show ?thesis by simp
  next
    case False
    obtain p ps where ps: "split_blank (d # s) = p # ps"
      by (cases "split_blank (d # s)") auto
    show ?thesis
    proof (cases ps)
      case Nil
      with ps have "p = d # s" by (simp add: split_blank_single)
      with Nil ps False show ?thesis
        by (auto split: list.splits)
    next
      case (Cons q qs)
      with 3(2) [OF False] ps False show ?thesis
        by (auto split: list.splits)
    qed
  qed
qed

lemma split_blank_frame:
  "LF \<notin> set l \<Longrightarrow> split_blank (l @ LF # LF # rest) = l # split_blank rest"
proof (induction l)
  case Nil
  then show ?case by simp
next
  case (Cons c l)
  then show ?case
    by (cases l) auto
qed

lemma for_lines_append:
  "for_lines parse (xs @ ys) fin st =
     (case for_lines parse xs fin st of
        (Inl t, st') \<Rightarrow> (Inl t, st')
      | (Inr fin', st') \<Rightarrow> for_lines parse ys fin' st')"
  by (induction xs arbitrary: fin st) (auto split: sum.splits prod.splits)

lemma read_loop_values:
  "split_blank buf = [buf] \<Longrightarrow>
   read_loop parse (map Value vs) buf fin st =
     for_lines parse (butlast (split_blank (buf @ concat vs))) fin st"
proof (induction vs arbitrary: buf fin st)
  case Nil
  then show ?case by simp
next
  case (Cons v vs)
  let ?lines = "split_blank (buf @ v)"
  have whole: "butlast (split_blank (buf @ concat (v # vs))) =
      butlast ?lines @ butlast (split_blank (last ?lines @ concat vs))"
    using split_blank_append [of "buf @ v" "concat vs"] by (simp add: butlast_append)
  have ih: "read_loop parse (map Value vs) (last ?lines) f s =
      for_lines parse (butlast (split_blank (last ?lines @ concat vs))) f s" for f s
    by (rule Cons.IH) (rule split_blank_last_single)
  show ?case
    unfolding whole for_lines_append
    by (simp add: ih Let_def split: prod.splits sum.splits)
qed

lemma frames_split:
  "\<forall>t \<in> set texts. LF \<notin> set t \<Longrightarrow>
   split_blank (concat (map frame texts)) = map (\<lambda>t. ''data: '' @ t) texts @ [[]]"
proof (induction texts)
  case Nil
  then show ?case by simp
next
  case (Cons t texts)
  have nolf: "LF \<notin> set (''data: '' @ t)"
    using Cons.prems by (simp add: LF_def)
  have eq: "concat (map frame (t # texts)) =
      (''data: '' @ t) @ LF # LF # concat (map frame texts)"
    by (simp add: frame_def)
  show ?case
    unfolding eq split_blank_frame [OF nolf] using Cons by simp
qed

lemma for_lines_frames:
  "map parse texts = map Inr evs \<Longrightarrow>
   for_lines parse (map (\<lambda>t. ''data: '' @ t) texts) fin st = run_events evs fin st"
proof (induction texts arbitrary: evs fin st)
  case Nil
  then show ?case by simp
next
  case (Cons t texts)
  then obtain e es where evs: "evs = e # es" "parse t = Inr e" "map parse texts = map Inr es"
    by (cases evs) auto
  with Cons.IH [of es] show ?case
    by (simp add: startsWith_def split: prod.splits sum.splits)
qed

lemma find_app:
  "find P (xs @ ys) = (case find P xs of None \<Rightarrow> find P ys | Some x \<Rightarrow> Some x)"
  by (induction xs) auto

lemma last_complete_Cons:
  "last_complete (e # evs) =
     (case last_complete evs of
        Some d \<Rightarrow> Some d
      | None \<Rightarrow> if is_complete e then Some e else None)"
  by (simp add: last_complete_def find_app split: option.splits)

lemma handle_data_not_error:
  "\<not> is_error e \<Longrightarrow>
   fst (handle_data e fin st) = Inr (if is_complete e then Some e else fin) \<and>
   response (snd (handle_data e fin st)) = (if is_complete e then Some e else response st) \<and>
   error (snd (handle_data e fin st)) = error st"
  by (simp add: handle_data_def is_error_def is_complete_def)

lemma handle_data_error:
  "is_error e \<Longrightarrow> handle_data e fin st = (Inl (Error (message e)), st)"
  by (simp add: handle_data_def is_error_def)

lemma run_events_no_error:
  "first_error evs = None \<Longrightarrow>
   fst (run_events evs fin st) = Inr (case last_complete evs of None \<Rightarrow> fin | Some d \<Rightarrow> Some d) \<and>
   response (snd (run_events evs fin st)) =
     (case last_complete evs of None \<Rightarrow> response st | Some d \<Rightarrow> Some d) \<and>
   error (snd (run_events evs fin st)) = error st"
proof (induction evs arbitrary: fin st)
  case Nil
  then show ?case by (simp add: last_complete_def)
next
  case (Cons e evs)
  then have ne: "\<not> is_error e" and rest: "first_error evs = None"
    by (auto simp: first_error_def split: if_splits)
  obtain r st' where h: "handle_data e fin st = (r, st')"
    by (cases "handle_data e fin st")
  with handle_data_not_error [OF ne, of fin st]
  have r: "r = Inr (if is_complete e then Some e else fin)"
    and st': "response st' = (if is_complete e then Some e else response st)" "error st' = error st"
    by simp_all
  show ?case
    using Cons.IH [OF rest, of "if is_complete e then Some e else fin" st'] h r st'
    by (simp add: last_complete_Cons split: option.splits)
qed

lemma run_events_error:
  "first_error evs = Some e \<Longrightarrow>
   fst (run_events evs fin st) = Inl (Error (message e)) \<and>
   response (snd (run_events evs fin st)) =
     (case last_complete (takeWhile (\<lambda>d. \<not> is_error d) evs) of
        None \<Rightarrow> response st | Some d \<Rightarrow> Some d) \<and>
   error (snd (run_events evs fin st)) = error st"
proof (induction evs arbitrary: fin st)
  case Nil
  then show ?case by (simp add: first_error_def)
next
  case (Cons d evs)
  show ?case
  proof (cases "is_error d")
    case True
    with Cons.prems have "d = e" by (simp add: first_error_def)
    with True show ?thesis
      by (simp add: handle_data_error last_complete_def)
  next
    case False
    with Cons.prems have rest: "first_error evs = Some e"
      by (simp add: first_error_def)
    obtain r st' where h: "handle_data d fin st = (r, st')"
      by (cases "handle_data d fin st")
    with handle_data_not_error [OF False, of fin st]
    have r: "r = Inr (if is_complete d then Some d else fin)"
      and st': "response st' = (if is_complete d then Some d else response st)"
        "error st' = error st"
      by simp_all
    show ?thesis
      using Cons.IH [OF rest, of "if is_complete d then Some d else fin" st'] h r st' False
      by (simp add: last_complete_Cons split: option.splits)
  qed
qed

lemma trim_blank: "trim q = [] \<longleftrightarrow> (\<forall>c \<in> set q. is_ws c)"
proof
  assume "trim q = []"
  then have all: "\<forall>x \<in> set (dropWhile is_ws q). is_ws x"
    by (simp add: trim_def dropWhile_eq_Nil_conv)
  have "dropWhile is_ws q = []"
  proof (rule ccontr)
    assume ne: "dropWhile is_ws q \<noteq> []"
    then have "\<not> is_ws (hd (dropWhile is_ws q))" by (rule hd_dropWhile)
    moreover have "hd (dropWhile is_ws q) \<in> set (dropWhile is_ws q)" using ne by simp
    ultimately show False using all by blast
  qed
  then show "\<forall>c \<in> set q. is_ws c"
    by (simp add: dropWhile_eq_Nil_conv)
next
  assume "\<forall>c \<in> set q. is_ws c"
  then show "trim q = []"
    by (auto simp: trim_def dest: set_dropWhileD)
qed

lemma stream_lines:
  assumes "\<forall>t \<in> set texts. LF \<notin> set t" and "concat chunks = concat (map frame texts)"
    and "map parse texts = map Inr evs"
  shows "read_loop parse (map Value chunks) [] fin st = run_events evs fin st"
proof -
  have "read_loop parse (map Value chunks) [] fin st =
      for_lines parse (butlast (split_blank ([] @ concat chunks))) fin st"
    by (rule read_loop_values) simp
  also have "\<dots> = for_lines parse (map (\<lambda>t. ''data: '' @ t) texts) fin st"
    using frames_split [OF assms(1)] assms(2) by simp
  also have "\<dots> = run_events evs fin st"
    using assms(3) by (rule for_lines_frames)
  finally show ?thesis .
qed

text \<open>
  Claim C5.  On a stream of framed events (each event's JSON text has no raw line feed, and
  the chunks may cut the frames anywhere), \<open>ask\<close> on a non-blank question treats the events
  in order.  An event of status \<open>searching\<close>, \<open>analyzing\<close> or \<open>generating\<close> only sets the
  stream status to its message.  With no \<open>error\<close> event, \<open>ask\<close> returns the payload of the
  last \<open>complete\<close> event, which is also the stored response, and stores no error.  With an
  \<open>error\<close> event, \<open>ask\<close> returns \<open>null\<close> and stores the message of the first one.  Whatever
  the \<open>try\<close> block throws, on any stream, \<open>ask\<close> returns \<open>null\<close> with the message stored: the
  caller never sees a rejection.  In every case loading ends false and the status empty.
\<close>

theorem ask_treats_stream_events:
  fixes parse parse' :: "string \<Rightarrow> string + 'f ConsensusResponse"
    and st st' s :: "'f ConsensusState"
  assumes nonblank: "trim question \<noteq> []"
    and reader: "askStream question md = Inr (map Value chunks)"
    and framed: "concat chunks = concat (map frame texts)"
    and nolf: "\<forall>t \<in> set texts. LF \<notin> set t"
    and parsed: "map parse texts = map Inr evs"
  shows
    "(is_progress data \<longrightarrow>
        handle_data data fin s = (Inr fin, s\<lparr>streamStatus := message data\<rparr>)) \<and>
     (first_error evs = None \<longrightarrow>
        fst (ask askStream parse question md st) = last_complete evs \<and>
        response (fst (snd (ask askStream parse question md st))) = last_complete evs \<and>
        error (fst (snd (ask askStream parse question md st))) = None) \<and>
     (\<forall>e. first_error evs = Some e \<longrightarrow>
        fst (ask askStream parse question md st) = None \<and>
        error (fst (snd (ask askStream parse question md st))) = Some (message e) \<and>
        response (fst (snd (ask askStream parse question md st))) =
          last_complete (takeWhile (\<lambda>d. \<not> is_error d) evs)) \<and>
     (\<forall>err. fst (ask_body askStream' parse' question md'
                  (st'\<lparr>loading := True, response := None, error := None,
                       streamStatus := ''Initializing...''\<rparr>)) = Inl err \<and>
            trim question \<noteq> [] \<longrightarrow>
        fst (ask askStream' parse' question md' st') = None \<and>
        error (fst (snd (ask askStream' parse' question md' st'))) = Some (catch_message err)) \<and>
     \<not> loading (fst (snd (ask askStream parse question md st))) \<and>
     streamStatus (fst (snd (ask askStream parse question md st))) = [] \<and>
     \<not> loading (fst (snd (ask askStream' parse' question md' st'))) \<and>
     streamStatus (fst (snd (ask askStream' parse' question md' st'))) = []"
proof -
  let ?st1 = "st\<lparr>loading := True, response := None, error := None,
                 streamStatus := ''Initializing...''\<rparr>"
  have body: "ask_body askStream parse question md ?st1 = run_events evs None ?st1"
    using stream_lines [OF nolf framed parsed] reader by (simp add: ask_body_def)
  have progress: "is_progress data \<longrightarrow>
      handle_data data fin s = (Inr fin, s\<lparr>streamStatus := message data\<rparr>)"
    by (simp add: handle_data_def is_progress_def)
  have ok: "first_error evs = None \<longrightarrow>
        fst (ask askStream parse question md st) = last_complete evs \<and>
        response (fst (snd (ask askStream parse question md st))) = last_complete evs \<and>
        error (fst (snd (ask askStream parse question md st))) = None"
  proof
    assume "first_error evs = None"
    from run_events_no_error [OF this, of None ?st1] show
      "fst (ask askStream parse question md st) = last_complete evs \<and>
        response (fst (snd (ask askStream parse question md st))) = last_complete evs \<and>
        error (fst (snd (ask askStream parse question md st))) = None"
      using nonblank
      by (cases "run_events evs None ?st1")
        (auto simp: ask_def body Let_def split: option.splits)
  qed
  have err: "\<forall>e. first_error evs = Some e \<longrightarrow>
        fst (ask askStream parse question md st) = None \<and>
        error (fst (snd (ask askStream parse question md st))) = Some (message e) \<and>
        response (fst (snd (ask askStream parse question md st))) =
          last_complete (takeWhile (\<lambda>d. \<not> is_error d) evs)"
  proof (intro allI impI)
    fix e
    assume "first_error evs = Some e"
    from run_events_error [OF this, of None ?st1] show
      "fst (ask askStream parse question md st) = None \<and>
        error (fst (snd (ask askStream parse question md st))) = Some (message e) \<and>
        response (fst (snd (ask askStream parse question md st))) =
          last_complete (takeWhile (\<lambda>d. \<not> is_error d) evs)"
      using nonblank
      by (cases "run_events evs None ?st1")
        (auto simp: ask_def body Let_def catch_message_def split: option.splits)
  qed
  have caught: "\<forall>err. fst (ask_body askStream' parse' question md'
                  (st'\<lparr>loading := True, response := None, error := None,
                       streamStatus := ''Initializing...''\<rparr>)) = Inl err \<and>
            trim question \<noteq> [] \<longrightarrow>
        fst (ask askStream' parse' question md' st') = None \<and>
        error (fst (snd (ask askStream' parse' question md' st'))) = Some (catch_message err)"
    by (auto simp: ask_def Let_def split: prod.splits sum.splits)
  have fin: "\<not> loading (fst (snd (ask a p question m x))) \<and>
     streamStatus (fst (snd (ask a p question m x))) = []"
    for a p m and x :: "'f ConsensusState"
    using nonblank by (auto simp: ask_def Let_def split: prod.splits sum.splits)
  from progress ok err caught fin [of askStream parse md st] fin [of askStream' parse' md' st']
  show ?thesis by blast
qed

theorem ask_treats_stream_events_witness:
  "trim ''q'' \<noteq> [] \<and>
   demo_stream ''q'' Consensus = Inr (map Value [''data: S'' @ [LF], [LF] @ ''data: C'' @ [LF, LF]]) \<and>
   concat [''data: S'' @ [LF], [LF] @ ''data: C'' @ [LF, LF]] = concat (map frame [''S'', ''C'']) \<and>
   LF \<notin> set ''S'' \<and> LF \<notin> set ''C'' \<and>
   map demo_parse [''S'', ''C''] =
     map Inr [demo_event ''searching'' ''Searching sources'', demo_event ''complete'' []] \<and>
   is_progress (demo_event ''searching'' ''Searching sources'') \<and>
   first_error [demo_event ''searching'' ''Searching sources'', demo_event ''complete'' []] = None \<and>
   handle_data (demo_event ''searching'' ''Searching sources'') None demo_state =
     (Inr None, demo_state\<lparr>streamStatus := ''Searching sources''\<rparr>) \<and>
   fst (ask demo_stream demo_parse ''q'' Consensus demo_state) = Some (demo_event ''complete'' []) \<and>
   error (fst (snd (ask demo_stream demo_parse ''q'' Consensus demo_state))) = None \<and>
   demo_stream ''q'' Fast = Inr (map Value [''data: S'' @ [LF, LF] @ ''data: E'' @ [LF, LF]]) \<and>
   first_error [demo_event ''searching'' ''Searching sources'',
                demo_event ''error'' ''No provider answered''] =
     Some (demo_event ''error'' ''No provider answered'') \<and>
   fst (ask demo_stream demo_parse ''q'' Fast demo_state) = None \<and>
   error (fst (snd (ask demo_stream demo_parse ''q'' Fast demo_state))) =
     Some ''No provider answered'' \<and>
   fst (ask_body (\<lambda>q m. Inl NonError) demo_parse ''q'' Fast
          (demo_state\<lparr>loading := True, response := None, error := None,
                      streamStatus := ''Initializing...''\<rparr>)) = Inl NonError \<and>
   error (fst (snd (ask (\<lambda>q m. Inl NonError) demo_parse ''q'' Fast demo_state))) =
     Some ''Error connecting to backend.''"
proof -
  let ?S = "demo_event ''searching'' ''Searching sources''"
  let ?C = "demo_event ''complete'' []"
  let ?E = "demo_event ''error'' ''No provider answered''"
  have q: "trim ''q'' \<noteq> []"
    by (simp add: trim_def is_ws_def)
  have r1: "demo_stream ''q'' Consensus =
      Inr (map Value [''data: S'' @ [LF], [LF] @ ''data: C'' @ [LF, LF]])"
    and r2: "demo_stream ''q'' Fast =
      Inr (map Value [''data: S'' @ [LF, LF] @ ''data: E'' @ [LF, LF]])"
    by (simp_all add: demo_stream_def)
  have f1: "concat [''data: S'' @ [LF], [LF] @ ''data: C'' @ [LF, LF]] =
      concat (map frame [''S'', ''C''])"
    and f2: "concat [''data: S'' @ [LF, LF] @ ''data: E'' @ [LF, LF]] =
      concat (map frame [''S'', ''E''])"
    by (simp_all add: frame_def)
  have n1: "\<forall>t \<in> set [''S'', ''C'']. LF \<notin> set t" and n2: "\<forall>t \<in> set [''S'', ''E'']. LF \<notin> set t"
    by (simp_all add: LF_def)
  have p1: "map demo_parse [''S'', ''C''] = map Inr [?S, ?C]"
    and p2: "map demo_parse [''S'', ''E''] = map Inr [?S, ?E]"
    by (simp_all add: demo_parse_def)
  have prog: "is_progress ?S"
    by (simp add: is_progress_def demo_event_def)
  have e1: "first_error [?S, ?C] = None" and e2: "first_error [?S, ?E] = Some ?E"
    by (simp_all add: first_error_def is_error_def demo_event_def)
  have lc: "last_complete [?S, ?C] = Some ?C"
    by (simp add: last_complete_def is_complete_def demo_event_def)
  have thrown: "fst (ask_body (\<lambda>q m. Inl NonError) demo_parse ''q'' Fast
          (demo_state\<lparr>loading := True, response := None, error := None,
                      streamStatus := ''Initializing...''\<rparr>)) = Inl NonError"
    by (simp add: ask_body_def)
  note first = ask_treats_stream_events
      [where askStream = demo_stream and question = "''q''" and md = Consensus
         and parse = demo_parse and data = ?S and fin = None and s = demo_state
         and st = demo_state and askStream' = "\<lambda>q m. Inl NonError" and parse' = demo_parse
         and md' = Fast and st' = demo_state, OF q r1 f1 n1 p1]
  note second = ask_treats_stream_events
      [where askStream = demo_stream and question = "''q''" and md = Fast
         and parse = demo_parse and data = ?S and fin = None and s = demo_state
         and st = demo_state and askStream' = "\<lambda>q m. Inl NonError" and parse' = demo_parse
         and md' = Fast and st' = demo_state, OF q r2 f2 n2 p2]
  have m: "message ?E = ''No provider answered''" and c: "catch_message NonError = ''Error connecting to backend.''"
    by (simp_all add: demo_event_def catch_message_def)
  have a1: "handle_data ?S None demo_state = (Inr None, demo_state\<lparr>streamStatus := ''Searching sources''\<rparr>)"
    using first prog by (simp add: demo_event_def)
  have a2: "fst (ask demo_stream demo_parse ''q'' Consensus demo_state) = Some ?C"
    "error (fst (snd (ask demo_stream demo_parse ''q'' Consensus demo_state))) = None"
    using first e1 lc by simp_all
  have a3: "fst (ask demo_stream demo_parse ''q'' Fast demo_state) = None"
    "error (fst (snd (ask demo_stream demo_parse ''q'' Fast demo_state))) = Some ''No provider answered''"
    using second e2 m by simp_all
  have a4: "error (fst (snd (ask (\<lambda>q m. Inl NonError) demo_parse ''q'' Fast demo_state))) =
     Some ''Error connecting to backend.''"
    using first thrown q c by simp
  from q r1 f1 n1 p1 prog e1 a1 a2 r2 e2 a3 thrown a4 show ?thesis
    by simp
qed

text \<open>
  Claim C10.  For a question that is empty or made of white space only, \<open>ask\<close> returns
  \<open>null\<close>, and \<open>ask\<close>, \<open>search\<close> and the arena's \<open>handleAnalyzeWithQuery\<close> make no request
  and return the state they were given: response, error, loading and status are untouched,
  and so is the history store.
\<close>

theorem blank_question_rejected:
  assumes "\<forall>c \<in> set question. is_ws c"
  shows
    "ask askStream parse question md st = (None, st, []) \<and>
     search searchPreview question pst = (pst, []) \<and>
     handleAnalyzeWithQuery fetch SEARCH_HISTORY_MAX calcDisruption gid now question ps = (ps, [])"
  using assms trim_blank [of question]
  by (simp add: ask_def search_def handleAnalyzeWithQuery_def)

theorem blank_question_rejected_witness:
  "is_ws CHR '' '' \<and> is_ws CHR 0x09 \<and> is_ws LF \<and>
   ask demo_stream demo_parse [CHR '' '', CHR 0x09, LF] Consensus demo_state = (None, demo_state, []) \<and>
   search (\<lambda>q. Inr (0::nat)) [CHR '' '', CHR 0x09, LF]
       \<lparr>preview = Some 7, sp_loading = False, sp_error = None\<rparr> =
     (\<lparr>preview = Some 7, sp_loading = False, sp_error = None\<rparr>, []) \<and>
   handleAnalyzeWithQuery
       (\<lambda>q. Response True 200 None \<lparr>judge_best = ''a'', judge_worst = ''b'', meta_succeeded = 2\<rparr>)
       50 (\<lambda>r. 0::nat) ''id'' 1 [CHR '' '', CHR 0x09, LF]
       (\<lparr>ar_result = None, ar_loading = False, ar_error = None, ar_expandedId = Some ''m''\<rparr>,
        history_init :: (nat, nat) SearchHistoryState) =
     ((\<lparr>ar_result = None, ar_loading = False, ar_error = None, ar_expandedId = Some ''m''\<rparr>,
       history_init), [])"
proof -
  have ws: "is_ws CHR '' ''" "is_ws CHR 0x09" "is_ws LF"
    by (simp_all add: is_ws_def LF_def)
  then have all: "\<forall>c \<in> set [CHR '' '', CHR 0x09, LF]. is_ws c"
    by simp
  from blank_question_rejected [OF all] ws show ?thesis
    by blast
qed

section \<open>A response without facts\<close>

text \<open>
  Claim C6, as stated, at a consensus response without facts: the results container renders
  the \<open>NoResults\<close> element and nothing else, so no consensus score (no \<open>N/A\<close>) and no note on
  the sources is on the page.
\<close>

theorem empty_facts_metrics_not_shown:
  "facts no_coverage_response = [] \<and>
   mode no_coverage_response = Some Consensus \<and>
   ResultsContainer no_coverage_response ''q'' = NoResults \<and>
   score_shown (ResultsContainer no_coverage_response ''q'') = None \<and>
   score_shown (ResultsContainer no_coverage_response ''q'') \<noteq> Some (Txt ''N/A'') \<and>
   sources_note_shown (ResultsContainer no_coverage_response ''q'') \<noteq> Some ''No relevant coverage''"
  by (simp add: no_coverage_response_def demo_event_def ResultsContainer_def score_shown_def
      sources_note_shown_def)

text \<open>
  Claim C6, amended.  For every response whose list of facts is empty, the results container
  renders the no-results element alone, and the search page shows it without an error
  banner when the hook holds the response and no error: a valid no-coverage outcome, not an
  error.  The metrics bar is not part of that view.  Rendered on such a response by itself,
  the metrics bar notes \<open>No relevant coverage\<close> under the sources and \<open>Topic not covered\<close>
  under the coverage, and shows the consensus score as \<open>N/A\<close> with an empty progress bar,
  unless the mode is fast, where it has no consensus score card.
\<close>

theorem empty_facts_presented_as_no_coverage:
  assumes "facts r = []"
  shows
    "ResultsContainer r q = NoResults \<and>
     (response st = Some r \<and> error st = None \<longrightarrow>
        results (SearchContent st q) = Some NoResults \<and>
        error_banner (SearchContent st q) = None) \<and>
     (mode r \<noteq> Some Fast \<longrightarrow>
        score_card (MetricsBar r) =
          Some \<lparr>label = ''Consensus Score'', shown = Txt ''N/A'', subtitle = None,
                 progressValue = Some 0\<rparr>) \<and>
     (mode r = Some Fast \<longrightarrow> score_card (MetricsBar r) = None) \<and>
     subtitle (sources_card (MetricsBar r)) = Some ''No relevant coverage'' \<and>
     coverage_caption (MetricsBar r) = ''Topic not covered''"
  using assms
  by (simp add: ResultsContainer_def SearchContent_def ErrorBanner_def MetricsBar_def Let_def)

theorem empty_facts_presented_as_no_coverage_witness:
  "facts no_coverage_response = [] \<and>
   response (demo_state\<lparr>response := Some no_coverage_response, error := None\<rparr>) =
     Some no_coverage_response \<and>
   error (demo_state\<lparr>response := Some no_coverage_response, error := None\<rparr>) = None \<and>
   mode no_coverage_response \<noteq> Some Fast \<and>
   mode (no_coverage_response\<lparr>mode := Some Fast\<rparr>) = Some Fast \<and>
   facts (no_coverage_response\<lparr>mode := Some Fast\<rparr>) = [] \<and>
   ResultsContainer no_coverage_response ''q'' = NoResults \<and>
   results (SearchContent (demo_state\<lparr>response := Some no_coverage_response, error := None\<rparr>) ''q'') =
     Some NoResults \<and>
   error_banner
     (SearchContent (demo_state\<lparr>response := Some no_coverage_response, error := None\<rparr>) ''q'') = None \<and>
   score_card (MetricsBar no_coverage_response) =
     Some \<lparr>label = ''Consensus Score'', shown = Txt ''N/A'', subtitle = None,
            progressValue = Some 0\<rparr> \<and>
   score_card (MetricsBar (no_coverage_response\<lparr>mode := Some Fast\<rparr>)) = None \<and>
   subtitle (sources_card (MetricsBar no_coverage_response)) = Some ''No relevant coverage''"
proof -
  have f: "facts no_coverage_response = []" "facts (no_coverage_response\<lparr>mode := Some Fast\<rparr>) = []"
    by (simp_all add: no_coverage_response_def)
  have m: "mode no_coverage_response \<noteq> Some Fast"
    by (simp add: no_coverage_response_def demo_event_def)
  from empty_facts_presented_as_no_coverage
      [OF f(1), of "''q''" "demo_state\<lparr>response := Some no_coverage_response, error := None\<rparr>"]
    empty_facts_presented_as_no_coverage [OF f(2), of "''q''" demo_state]
    f m
  show ?thesis by simp
qed

section \<open>The statistics and their consumers\<close>

text \<open>
  Claim C7.  The result of the stats operation is the record of the four fields
  \<open>articles_indexed\<close>, \<open>chunks_created\<close>, \<open>sources\<close> and \<open>embeddings_ready\<close>, and is what the
  hook stores.  The dashboard and the sidebar read these fields only: two stats objects that
  agree on the four fields render the same, whatever else they carry.  The dashboard shows
  the three counts and reads \<open>embeddings_ready\<close> as a truth value: \<open>Ready\<close> and
  \<open>System operational\<close> when it holds, \<open>Pending\<close> and \<open>Generating...\<close> when not.
\<close>

theorem stats_four_fields:
  fixes s :: "'x Stats_scheme" and s' :: "'y Stats_scheme"
    and st :: "'x StatsState" and st' :: "'y StatsState" and t :: Stats
  assumes "articles_indexed s = articles_indexed s'" and "chunks_created s = chunks_created s'"
    and "sources s = sources s'" and "embeddings_ready s = embeddings_ready s'"
  shows
    "StatsOverview (st\<lparr>stats := Some s\<rparr>) = StatsOverview (st'\<lparr>stats := Some s'\<rparr>) \<and>
     Sidebar_stats (st\<lparr>stats := Some s\<rparr>) = Sidebar_stats (st'\<lparr>stats := Some s'\<rparr>) \<and>
     StatsOverview (st\<lparr>stats := Some s\<rparr>) =
       Some [\<lparr>label = ''Articles Indexed'', shown = Count (articles_indexed s),
               subtitle = None, progressValue = None\<rparr>,
             \<lparr>label = ''Facts Checked'', shown = Count (chunks_created s),
               subtitle = None, progressValue = None\<rparr>,
             \<lparr>label = ''Sources'', shown = Count (sources s),
               subtitle = None, progressValue = None\<rparr>,
             \<lparr>label = ''Embeddings'',
               shown = Txt (if embeddings_ready s then ''Ready'' else ''Pending''),
               subtitle = Some (if embeddings_ready s then ''System operational''
                                else ''Generating...''),
               progressValue = None\<rparr>] \<and>
     Sidebar_stats (st\<lparr>stats := Some s\<rparr>) = Some (articles_indexed s, sources s) \<and>
     stats (refresh (Inr s) st) = Some s \<and>
     t = \<lparr>articles_indexed = articles_indexed t, chunks_created = chunks_created t,
          sources = sources t, embeddings_ready = embeddings_ready t\<rparr>"
  using assms
  by (simp add: StatsOverview_def Sidebar_stats_def refresh_def)

theorem stats_four_fields_witness:
  "articles_indexed \<lparr>articles_indexed = 120, chunks_created = 900, sources = 12,
                     embeddings_ready = True\<rparr> =
     articles_indexed \<lparr>articles_indexed = 120, chunks_created = 900, sources = 12,
                       embeddings_ready = True, \<dots> = ''extra''\<rparr> \<and>
   StatsOverview
     \<lparr>stats = Some \<lparr>articles_indexed = 120, chunks_created = 900, sources = 12,
                    embeddings_ready = True\<rparr>, st_loading = False, st_error = None\<rparr> =
   StatsOverview
     \<lparr>stats = Some \<lparr>articles_indexed = 120, chunks_created = 900, sources = 12,
                    embeddings_ready = True, \<dots> = ''extra''\<rparr>,
      st_loading = True, st_error = Some ''e''\<rparr> \<and>
   map shown (the (StatsOverview
     \<lparr>stats = Some \<lparr>articles_indexed = 120, chunks_created = 900, sources = 12,
                    embeddings_ready = True\<rparr>, st_loading = False, st_error = None\<rparr>)) =
     [Count 120, Count 900, Count 12, Txt ''Ready'']"
proof -
  let ?s = "\<lparr>articles_indexed = 120, chunks_created = 900, sources = 12,
              embeddings_ready = True\<rparr>"
  let ?s' = "\<lparr>articles_indexed = 120, chunks_created = 900, sources = 12,
               embeddings_ready = True, \<dots> = ''extra''\<rparr>"
  have same: "articles_indexed ?s = articles_indexed ?s'" "chunks_created ?s = chunks_created ?s'"
    "sources ?s = sources ?s'" "embeddings_ready ?s = embeddings_ready ?s'"
    by simp_all
  let ?st = "\<lparr>stats = None, st_loading = False, st_error = None\<rparr> :: unit StatsState"
  let ?st' = "\<lparr>stats = None, st_loading = True, st_error = Some ''e''\<rparr> :: string StatsState"
  note at = stats_four_fields [OF same, of ?st ?st']
  from at have agree: "StatsOverview (?st\<lparr>stats := Some ?s\<rparr>) = StatsOverview (?st'\<lparr>stats := Some ?s'\<rparr>)"
    by (rule conjunct1)
  from at [THEN conjunct2, THEN conjunct2, THEN conjunct1]
  have cards: "map shown (the (StatsOverview (?st\<lparr>stats := Some ?s\<rparr>))) =
      [Count 120, Count 900, Count 12, Txt ''Ready'']"
    by simp
  show ?thesis
  proof (intro conjI)
    show "articles_indexed ?s = articles_indexed ?s'" by (rule same(1))
    show "StatsOverview \<lparr>stats = Some ?s, st_loading = False, st_error = None\<rparr> =
        StatsOverview \<lparr>stats = Some ?s', st_loading = True, st_error = Some ''e''\<rparr>"
      using agree by simp
    show "map shown (the (StatsOverview \<lparr>stats = Some ?s, st_loading = False, st_error = None\<rparr>)) =
        [Count 120, Count 900, Count 12, Txt ''Ready'']"
      using cards by simp
  qed
qed

section \<open>Retrieval: bounded, ranked, independent of the index order\<close>

lemma lex_le_refl: "lex_le s s"
  by (induction s) auto

lemma lex_le_total: "lex_le s t \<or> lex_le t s"
  by (induction s t rule: lex_le.induct) auto

lemma lex_le_trans: "lex_le s t \<Longrightarrow> lex_le t u \<Longrightarrow> lex_le s u"
proof (induction s t arbitrary: u rule: lex_le.induct)
  case (1 t)
  then show ?case by simp
next
  case (2 a s)
  then show ?case by simp
next
  case (3 a s b t)
  then show ?case by (cases u) auto
qed

lemma lex_le_antisym: "lex_le s t \<Longrightarrow> lex_le t s \<Longrightarrow> s = t"
proof (induction s t rule: lex_le.induct)
  case (1 t)
  then show ?case by (cases t) auto
next
  case (2 a s)
  then show ?case by simp
next
  case (3 a s b t)
  then show ?case by auto
qed

lemma ranks_before_total: "ranks_before x y \<or> ranks_before y x"
  using lex_le_total [of "chunk_id (fst x)" "chunk_id (fst y)"]
  by (auto simp: ranks_before_def)

lemma ranks_before_trans: "ranks_before x y \<Longrightarrow> ranks_before y z \<Longrightarrow> ranks_before x z"
  unfolding ranks_before_def
  by (elim disjE conjE) (auto intro: lex_le_trans)

lemma ranks_before_antisym:
  "ranks_before x y \<Longrightarrow> ranks_before y x \<Longrightarrow> chunk_id (fst x) = chunk_id (fst y) \<and> snd x = snd y"
  unfolding ranks_before_def
  by (elim disjE conjE) (auto intro: lex_le_antisym)

lemma set_insert_ranked: "set (insert_ranked x xs) = insert x (set xs)"
  by (induction xs) auto

lemma mset_insert_ranked: "mset (insert_ranked x xs) = add_mset x (mset xs)"
  by (induction xs) auto

lemma mset_rank_sort: "mset (rank_sort xs) = mset xs"
  by (induction xs) (auto simp: mset_insert_ranked)

lemma sorted_insert_ranked:
  "sorted_wrt ranks_before xs \<Longrightarrow> sorted_wrt ranks_before (insert_ranked x xs)"
proof (induction xs)
  case Nil
  then show ?case by simp
next
  case (Cons y ys)
  show ?case
  proof (cases "ranks_before x y")
    case True
    with Cons.prems show ?thesis
      by (auto intro: ranks_before_trans)
  next
    case False
    with ranks_before_total [of x y] have "ranks_before y x" by blast
    with False Cons show ?thesis
      by (auto simp: set_insert_ranked)
  qed
qed

lemma sorted_rank_sort: "sorted_wrt ranks_before (rank_sort xs)"
  by (induction xs) (auto intro: sorted_insert_ranked)

lemma sorted_wrt_unique:
  assumes "sorted_wrt R xs" and "sorted_wrt R ys" and "mset xs = mset ys"
    and "\<And>a b. a \<in> set xs \<Longrightarrow> b \<in> set xs \<Longrightarrow> R a b \<Longrightarrow> R b a \<Longrightarrow> a = b"
  shows "xs = ys"
  using assms
proof (induction xs arbitrary: ys)
  case Nil
  then show ?case by simp
next
  case (Cons x xs)
  from Cons.prems(3) obtain y ys' where ys: "ys = y # ys'"
    by (cases ys) auto
  have sets: "set (x # xs) = set ys"
    using Cons.prems(3) by (rule mset_eq_setD)
  have "x = y"
  proof (rule ccontr)
    assume ne: "x \<noteq> y"
    from sets ys have "x \<in> insert y (set ys')" "y \<in> insert x (set xs)" by auto
    with ne have xin: "x \<in> set ys'" and yin: "y \<in> set xs" by auto
    have yx: "R y x" using Cons.prems(2) ys xin by simp
    have xy: "R x y" using Cons.prems(1) yin by simp
    have "x = y" using Cons.prems(4) [of x y] yin xy yx by simp
    with ne show False ..
  qed
  with Cons.prems ys have "xs = ys'"
    by (intro Cons.IH) auto
  with \<open>x = y\<close> ys show ?case by simp
qed

lemma ranks_before_same_chunk:
  assumes ok: "index_ok index"
    and x: "x \<in> set (candidates sim qv filters index)"
    and y: "y \<in> set (candidates sim qv filters index)"
    and xy: "ranks_before x y" and yx: "ranks_before y x"
  shows "x = y"
proof -
  from x obtain c v where c: "(c, v) \<in> set index" "x = (c, sim qv v)"
    by (auto simp: candidates_def)
  from y obtain d w where d: "(d, w) \<in> set index" "y = (d, sim qv w)"
    by (auto simp: candidates_def)
  from ranks_before_antisym [OF xy yx] c d have "chunk_id c = chunk_id d"
    by simp
  moreover from ok have "inj_on (\<lambda>(c, v). chunk_id c) (set index)"
    by (simp add: index_ok_def distinct_map)
  ultimately have "(c, v) = (d, w)"
    using c(1) d(1) inj_onD [of "\<lambda>(c, v). chunk_id c" "set index" "(c, v)" "(d, w)"]
    by simp
  with c d show ?thesis by simp
qed

lemma rank_sort_permuted:
  assumes ok: "index_ok index" and perm: "mset index' = mset index"
  shows "rank_sort (candidates sim qv filters index') = rank_sort (candidates sim qv filters index)"
proof (rule sorted_wrt_unique [where R = ranks_before])
  have same: "mset (candidates sim qv filters index') = mset (candidates sim qv filters index)"
    unfolding candidates_def by (simp add: perm)
  then show "mset (rank_sort (candidates sim qv filters index')) =
      mset (rank_sort (candidates sim qv filters index))"
    by (simp add: mset_rank_sort)
  fix a b
  assume "a \<in> set (rank_sort (candidates sim qv filters index'))"
    and "b \<in> set (rank_sort (candidates sim qv filters index'))"
    and ab: "ranks_before a b" "ranks_before b a"
  then have "a \<in> set (candidates sim qv filters index)" "b \<in> set (candidates sim qv filters index)"
    using mset_eq_setD [OF same] mset_eq_setD [OF mset_rank_sort]
    by auto
  with ok ab show "a = b"
    by (blast intro: ranks_before_same_chunk)
qed (rule sorted_rank_sort)+

lemma sorted_wrt_take_drop:
  "sorted_wrt R xs \<Longrightarrow> x \<in> set (take k xs) \<Longrightarrow> y \<in> set (drop k xs) \<Longrightarrow> R x y"
  using sorted_wrt_append [of R "take k xs" "drop k xs"] by simp

text \<open>
  Claim C1.  Whenever the query can be embedded, \<open>retrieve\<close> returns an evidence set, for
  every query text, every \<open>k\<close> and every filter, and that evidence set has at most \<open>k\<close>
  entries; it is sorted by descending similarity score, entries of equal score by higher
  recency first, and entries equal in both by chunk id in lexicographic order; its entries
  are candidates of the index that pass the filter, and every candidate left out ranks
  after every entry returned.  The order does not depend on how the index lists its chunks:
  any index snapshot with the same entries gives the same evidence set.  When the query
  cannot be embedded, the result is \<open>EmbeddingUnavailable\<close> and no evidence.
\<close>

theorem retrieve_at_most_k_ranked:
  fixes sim :: "'v \<Rightarrow> 'v \<Rightarrow> 's::linorder"
  shows
    "(embed_query query_text = None \<longrightarrow>
        retrieve embed_query sim index query_text k filters = Inl EmbeddingUnavailable) \<and>
     (embed_query query_text = Some qv \<longrightarrow>
        (\<exists>ev. retrieve embed_query sim index query_text k filters = Inr ev \<and>
           length ev \<le> k \<and>
           sorted_wrt (\<lambda>x y. snd x \<ge> snd y) ev \<and>
           sorted_wrt (\<lambda>x y. snd x = snd y \<longrightarrow> publish_date (fst x) \<ge> publish_date (fst y)) ev \<and>
           sorted_wrt (\<lambda>x y. snd x = snd y \<and> publish_date (fst x) = publish_date (fst y) \<longrightarrow>
                               lex_le (chunk_id (fst x)) (chunk_id (fst y))) ev \<and>
           set ev \<subseteq> set (candidates sim qv filters index) \<and>
           (\<forall>x \<in> set ev. \<forall>y \<in> set (candidates sim qv filters index).
               y \<notin> set ev \<longrightarrow> ranks_before x y) \<and>
           (\<forall>index'. index_ok index \<and> mset index' = mset index \<longrightarrow>
               retrieve embed_query sim index' query_text k filters = Inr ev)))"
proof (intro conjI impI)
  assume "embed_query query_text = None"
  then show "retrieve embed_query sim index query_text k filters = Inl EmbeddingUnavailable"
    by (simp add: retrieve_def)
next
  assume qv: "embed_query query_text = Some qv"
  let ?all = "rank_sort (candidates sim qv filters index)"
  let ?ev = "take k ?all"
  have sorted_all: "sorted_wrt ranks_before ?all"
    by (rule sorted_rank_sort)
  then have sorted_ev: "sorted_wrt ranks_before ?ev"
    by (rule sorted_wrt_take)
  have set_all: "set ?all = set (candidates sim qv filters index)"
    using mset_eq_setD [OF mset_rank_sort] .
  have r: "retrieve embed_query sim index query_text k filters = Inr ?ev"
    using qv by (simp add: retrieve_def)
  have len: "length ?ev \<le> k"
    by simp
  have score: "sorted_wrt (\<lambda>x y. snd x \<ge> snd y) ?ev"
    using sorted_ev by (rule sorted_wrt_mono_rel [rotated]) (auto simp: ranks_before_def)
  have date: "sorted_wrt (\<lambda>x y. snd x = snd y \<longrightarrow> publish_date (fst x) \<ge> publish_date (fst y)) ?ev"
    using sorted_ev by (rule sorted_wrt_mono_rel [rotated]) (auto simp: ranks_before_def)
  have ident: "sorted_wrt (\<lambda>x y. snd x = snd y \<and> publish_date (fst x) = publish_date (fst y) \<longrightarrow>
      lex_le (chunk_id (fst x)) (chunk_id (fst y))) ?ev"
    using sorted_ev by (rule sorted_wrt_mono_rel [rotated]) (auto simp: ranks_before_def)
  have sub: "set ?ev \<subseteq> set (candidates sim qv filters index)"
    using set_take_subset [of k ?all] set_all by simp
  have top: "\<forall>x \<in> set ?ev. \<forall>y \<in> set (candidates sim qv filters index).
      y \<notin> set ?ev \<longrightarrow> ranks_before x y"
  proof (intro ballI impI)
    fix x y
    assume x: "x \<in> set ?ev" and y: "y \<in> set (candidates sim qv filters index)" "y \<notin> set ?ev"
    from y set_all have "y \<in> set (take k ?all @ drop k ?all)" by simp
    with y(2) have "y \<in> set (drop k ?all)" by (simp only: set_append) blast
    with sorted_all x show "ranks_before x y" by (rule sorted_wrt_take_drop)
  qed
  have perm: "\<forall>index'. index_ok index \<and> mset index' = mset index \<longrightarrow>
      retrieve embed_query sim index' query_text k filters = Inr ?ev"
  proof (intro allI impI)
    fix index' :: "(Chunk \<times> 'v) list"
    assume "index_ok index \<and> mset index' = mset index"
    then have "rank_sort (candidates sim qv filters index') =
        rank_sort (candidates sim qv filters index)"
      by (intro rank_sort_permuted) simp_all
    with qv show "retrieve embed_query sim index' query_text k filters = Inr ?ev"
      by (simp add: retrieve_def)
  qed
  from r len score date ident sub top perm
  show "\<exists>ev. retrieve embed_query sim index query_text k filters = Inr ev \<and>
           length ev \<le> k \<and>
           sorted_wrt (\<lambda>x y. snd x \<ge> snd y) ev \<and>
           sorted_wrt (\<lambda>x y. snd x = snd y \<longrightarrow> publish_date (fst x) \<ge> publish_date (fst y)) ev \<and>
           sorted_wrt (\<lambda>x y. snd x = snd y \<and> publish_date (fst x) = publish_date (fst y) \<longrightarrow>
                               lex_le (chunk_id (fst x)) (chunk_id (fst y))) ev \<and>
           set ev \<subseteq> set (candidates sim qv filters index) \<and>
           (\<forall>x \<in> set ev. \<forall>y \<in> set (candidates sim qv filters index).
               y \<notin> set ev \<longrightarrow> ranks_before x y) \<and>
           (\<forall>index'. index_ok index \<and> mset index' = mset index \<longrightarrow>
               retrieve embed_query sim index' query_text k filters = Inr ev)"
    by blast
qed

theorem retrieve_at_most_k_ranked_witness:
  "(\<lambda>q. Some (1::int)) ''layoffs'' = Some 1 \<and>
   index_ok demo_index \<and>
   mset (rev demo_index) = mset demo_index \<and>
   map (\<lambda>x. (chunk_id (fst x), snd x))
     (projr (retrieve (\<lambda>q. Some 1) demo_sim demo_index ''layoffs'' 3
               (\<lambda>c. source_name c \<noteq> ''blog''))) =
     [(''c4'', 7), (''c3'', 5), (''c1'', 5)] \<and>
   retrieve (\<lambda>q. Some 1) demo_sim (rev demo_index) ''layoffs'' 3 (\<lambda>c. source_name c \<noteq> ''blog'') =
     retrieve (\<lambda>q. Some 1) demo_sim demo_index ''layoffs'' 3 (\<lambda>c. source_name c \<noteq> ''blog'') \<and>
   length (projr (retrieve (\<lambda>q. Some 1) demo_sim demo_index ''layoffs'' 3
                    (\<lambda>c. source_name c \<noteq> ''blog''))) \<le> 3"
proof -
  let ?f = "\<lambda>c. source_name c \<noteq> ''blog''"
  let ?e = "\<lambda>q :: string. Some (1::int)"
  have e: "?e ''layoffs'' = Some 1" by simp
  have ok: "index_ok demo_index"
    by (simp add: index_ok_def demo_index_def demo_chunk_def)
  have perm: "mset (rev demo_index) = mset demo_index" by simp
  from retrieve_at_most_k_ranked [of ?e "''layoffs''" demo_sim demo_index 3 ?f 1] e
  obtain ev where ev: "retrieve ?e demo_sim demo_index ''layoffs'' 3 ?f = Inr ev"
      "length ev \<le> 3"
      "\<forall>index'. index_ok demo_index \<and> mset index' = mset demo_index \<longrightarrow>
         retrieve ?e demo_sim index' ''layoffs'' 3 ?f = Inr ev"
    by blast
  from ev(3) ok perm have same: "retrieve ?e demo_sim (rev demo_index) ''layoffs'' 3 ?f = Inr ev"
    by blast
  have val: "map (\<lambda>x. (chunk_id (fst x), snd x)) (projr (retrieve ?e demo_sim demo_index ''layoffs'' 3 ?f)) =
     [(''c4'', 7), (''c3'', 5), (''c1'', 5)]"
    by code_simp
  from e ok perm val same ev(1,2) show ?thesis
    by simp
qed

section \<open>Tier transparency of the embedding store\<close>

lemma served_coherent:
  "coherent embed_chunk store \<Longrightarrow>
   served embed_chunk fast_up durable_up source_up store c = Some (t, v) \<Longrightarrow> v = embed_chunk c"
  by (auto simp: served_def coherent_def split: option.splits if_splits)

lemma get_or_compute_coherent:
  assumes "coherent embed_chunk store"
  shows "coherent embed_chunk
    (snd (get_or_compute embed_chunk fast_up durable_up source_up chunk_ids store))"
  using assms served_coherent [OF assms, of fast_up durable_up source_up]
  unfolding coherent_def get_or_compute_def Let_def
  by (auto split: option.splits tier.splits if_splits) metis+

lemma get_or_compute_transparent:
  assumes "coherent embed_chunk store"
    and "(c, Some (t, v)) \<in>
      set (fst (get_or_compute embed_chunk fast_up durable_up source_up chunk_ids store))"
  shows "v = embed_chunk c"
  using assms served_coherent [OF assms(1), of fast_up durable_up source_up c t v]
  by (auto simp: get_or_compute_def Let_def)

lemma serve_transparent:
  "coherent embed_chunk store \<Longrightarrow> out \<in> set (serve embed_chunk evs store)
    \<Longrightarrow> (c, Some (t, v)) \<in> set out \<Longrightarrow> v = embed_chunk c"
proof (induction evs arbitrary: store)
  case Nil
  then show ?case by simp
next
  case (Cons e evs)
  show ?case
  proof (cases e)
    case (Request fast_up durable_up source_up chunk_ids)
    obtain o1 s1 where
      g: "get_or_compute embed_chunk fast_up durable_up source_up chunk_ids store = (o1, s1)"
      by (cases "get_or_compute embed_chunk fast_up durable_up source_up chunk_ids store")
    from get_or_compute_coherent [OF Cons.prems(1), of fast_up durable_up source_up chunk_ids] g
    have c1: "coherent embed_chunk s1" by simp
    from Cons.prems(2) Request g have "out = o1 \<or> out \<in> set (serve embed_chunk evs s1)"
      by simp
    then show ?thesis
    proof
      assume "out = o1"
      with Cons.prems(3) g
        get_or_compute_transparent [OF Cons.prems(1), of c t v fast_up durable_up source_up chunk_ids]
      show ?thesis by simp
    next
      assume "out \<in> set (serve embed_chunk evs s1)"
      from Cons.IH [OF c1 this Cons.prems(3)] show ?thesis .
    qed
  next
    case FastTierLost
    have "coherent embed_chunk (store\<lparr>fast_tier := Map.empty\<rparr>)"
      using Cons.prems(1) by (simp add: coherent_def)
    from Cons.IH [OF this _ Cons.prems(3)] Cons.prems(2) FastTierLost show ?thesis
      by simp
  next
    case DurableTierLost
    have "coherent embed_chunk (store\<lparr>durable_tier := Map.empty\<rparr>)"
      using Cons.prems(1) by (simp add: coherent_def)
    from Cons.IH [OF this _ Cons.prems(3)] Cons.prems(2) DurableTierLost show ?thesis
      by simp
  qed
qed

lemma served_without_fast:
  assumes "fast_in_durable store" and "durable_tier store = durable_tier store0"
  shows "map_option snd (served embed_chunk fast_up True source_up store c) =
         map_option snd (served embed_chunk False True source_up store0 c)"
  using assms
  by (auto simp: served_def fast_in_durable_def split: option.splits)

lemma get_or_compute_without_fast:
  assumes inv: "fast_in_durable store" and same: "durable_tier store = durable_tier store0"
  shows "vectors (fst (get_or_compute embed_chunk fast_up True source_up chunk_ids store)) =
         vectors (fst (get_or_compute embed_chunk False True source_up chunk_ids store0))"
    and "durable_tier (snd (get_or_compute embed_chunk fast_up True source_up chunk_ids store)) =
         durable_tier (snd (get_or_compute embed_chunk False True source_up chunk_ids store0))"
    and "fast_in_durable (snd (get_or_compute embed_chunk fast_up True source_up chunk_ids store))"
proof -
  show "vectors (fst (get_or_compute embed_chunk fast_up True source_up chunk_ids store)) =
         vectors (fst (get_or_compute embed_chunk False True source_up chunk_ids store0))"
    using served_without_fast [OF inv same, of embed_chunk fast_up source_up]
    by (simp add: get_or_compute_def Let_def vectors_def)
  show "durable_tier (snd (get_or_compute embed_chunk fast_up True source_up chunk_ids store)) =
         durable_tier (snd (get_or_compute embed_chunk False True source_up chunk_ids store0))"
  proof (rule ext)
    fix c
    show "durable_tier (snd (get_or_compute embed_chunk fast_up True source_up chunk_ids store)) c =
         durable_tier (snd (get_or_compute embed_chunk False True source_up chunk_ids store0)) c"
      using inv same
      by (auto simp: get_or_compute_def Let_def served_def fast_in_durable_def
          split: option.splits tier.splits)
  qed
  show "fast_in_durable (snd (get_or_compute embed_chunk fast_up True source_up chunk_ids store))"
    using inv
    unfolding fast_in_durable_def get_or_compute_def Let_def served_def
    by (auto split: option.splits tier.splits if_splits)
qed

lemma serve_without_fast:
  "list_all durable_intact evs \<Longrightarrow> fast_in_durable store \<Longrightarrow>
   durable_tier store = durable_tier store0 \<Longrightarrow>
   map vectors (serve embed_chunk (map without_fast evs) store0) =
   map vectors (serve embed_chunk evs store)"
proof (induction evs arbitrary: store store0)
  case Nil
  then show ?case by simp
next
  case (Cons e evs)
  from Cons.prems(1) have rest: "list_all durable_intact evs" and e: "durable_intact e"
    by simp_all
  show ?case
  proof (cases e)
    case (Request fast_up durable_up source_up chunk_ids)
    with e have up: "durable_up" by simp
    obtain o1 s1 where
      g: "get_or_compute embed_chunk fast_up True source_up chunk_ids store = (o1, s1)"
      by (cases "get_or_compute embed_chunk fast_up True source_up chunk_ids store")
    obtain o0 s0 where
      g0: "get_or_compute embed_chunk False True source_up chunk_ids store0 = (o0, s0)"
      by (cases "get_or_compute embed_chunk False True source_up chunk_ids store0")
    from get_or_compute_without_fast [OF Cons.prems(2,3), of embed_chunk fast_up source_up chunk_ids]
      g g0
    have "vectors o1 = vectors o0" "durable_tier s1 = durable_tier s0" "fast_in_durable s1"
      by simp_all
    with Cons.IH [OF rest, of s1 s0] Request up g g0 show ?thesis
      by simp
  next
    case FastTierLost
    have "fast_in_durable (store\<lparr>fast_tier := Map.empty\<rparr>)"
      by (simp add: fast_in_durable_def)
    with Cons.IH [OF rest, of "store\<lparr>fast_tier := Map.empty\<rparr>" "store0\<lparr>fast_tier := Map.empty\<rparr>"]
      Cons.prems(3) FastTierLost
    show ?thesis by simp
  next
    case DurableTierLost
    with e show ?thesis by simp
  qed
qed

lemma served_source_up:
  "coherent embed_chunk store \<Longrightarrow> source_up c \<Longrightarrow>
   map_option snd (served embed_chunk fast_up durable_up source_up store c) = Some (embed_chunk c)"
  by (auto simp: served_def coherent_def split: option.splits)

lemma serve_source_reachable:
  "list_all source_reachable evs \<Longrightarrow> coherent embed_chunk store \<Longrightarrow>
   map vectors (serve embed_chunk evs store) =
   map (map (\<lambda>c. (c, Some (embed_chunk c)))) (requested evs)"
proof (induction evs arbitrary: store)
  case Nil
  then show ?case by simp
next
  case (Cons e evs)
  from Cons.prems(1) have rest: "list_all source_reachable evs" and e: "source_reachable e"
    by simp_all
  show ?case
  proof (cases e)
    case (Request fast_up durable_up source_up chunk_ids)
    obtain o1 s1 where
      g: "get_or_compute embed_chunk fast_up durable_up source_up chunk_ids store = (o1, s1)"
      by (cases "get_or_compute embed_chunk fast_up durable_up source_up chunk_ids store")
    from get_or_compute_coherent [OF Cons.prems(2), of fast_up durable_up source_up chunk_ids] g
    have c1: "coherent embed_chunk s1" by simp
    from e Request have "\<forall>c \<in> set chunk_ids. source_up c"
      by (simp add: list_all_iff)
    with g served_source_up [OF Cons.prems(2), of source_up _ fast_up durable_up]
    have "vectors o1 = map (\<lambda>c. (c, Some (embed_chunk c))) chunk_ids"
      by (auto simp: get_or_compute_def Let_def vectors_def)
    with Cons.IH [OF rest c1] Request g show ?thesis
      by simp
  next
    case FastTierLost
    have "coherent embed_chunk (store\<lparr>fast_tier := Map.empty\<rparr>)"
      using Cons.prems(2) by (simp add: coherent_def)
    with Cons.IH [OF rest] FastTierLost show ?thesis by simp
  next
    case DurableTierLost
    have "coherent embed_chunk (store\<lparr>durable_tier := Map.empty\<rparr>)"
      using Cons.prems(2) by (simp add: coherent_def)
    with Cons.IH [OF rest] DurableTierLost show ?thesis by simp
  qed
qed

lemma without_fast_same_requests:
  "requested (map without_fast evs) = requested evs"
  "list_all source_reachable (map without_fast evs) = list_all source_reachable evs"
  by (induction evs rule: requested.induct) simp_all

lemma empty_store_invariants:
  "coherent embed_chunk empty_store" "fast_in_durable empty_store"
  by (simp_all add: coherent_def fast_in_durable_def empty_store_def)

lemma serve_source_without_fast:
  assumes "list_all source_reachable evs"
  shows "map vectors (serve embed_chunk (map without_fast evs) empty_store) =
         map vectors (serve embed_chunk evs empty_store)"
  using serve_source_reachable [OF assms empty_store_invariants(1), of embed_chunk]
    serve_source_reachable [OF _ empty_store_invariants(1), of "map without_fast evs" embed_chunk]
    assms
  by (simp add: without_fast_same_requests)

text \<open>
  Claim C4, as stated, at a chunk that was computed while the durable snapshot could not be
  locked and is asked for again during an outage of the source of truth: with the fast tier
  the chunk is served from it, without the fast tier every tier fails for the chunk.  The
  vectors returned differ, and so does the retrieval from the index built by that request.
\<close>

theorem fast_tier_masks_outage:
  "map vectors (serve demo_embed outage_history empty_store) =
     [[(''c1'', Some 148)], [(''c1'', Some 148)]] \<and>
   map vectors (serve demo_embed (map without_fast outage_history) empty_store) =
     [[(''c1'', Some 148)], [(''c1'', None)]] \<and>
   retrieve_with_store demo_embed [hd outage_history] True True source_never outage_corpus
       demo_embed_query demo_sim ''q'' 1 all_chunks =
     Inr [(demo_chunk ''c1'' ''reuters'' 10, 148)] \<and>
   retrieve_with_store demo_embed (map without_fast [hd outage_history]) False True source_never
       outage_corpus demo_embed_query demo_sim ''q'' 1 all_chunks =
     Inr []"
  by code_simp

text \<open>
  Claim C4, amended.  Over every history of requests, losses of the fast tier and losses of
  the durable snapshot, starting from the empty store: every vector that \<open>get_or_compute\<close>
  returns for a chunk is the vector the source of truth computes for it, whichever tier
  served it, so a run with the fast tier and a run without it never return different
  vectors for a chunk.  As long as the durable snapshot stays intact and available, the run
  without the fast tier returns exactly the same vectors and failures, request by request,
  and the same retrieval result from the index built from the store; the same holds as long
  as the source of truth answers for every requested chunk.  Otherwise a chunk that one run
  serves can be unavailable in the other.
\<close>

theorem tier_transparency:
  fixes sim :: "'v \<Rightarrow> 'v \<Rightarrow> 's::linorder"
  shows
    "(\<forall>out \<in> set (serve embed_chunk evs empty_store).
        \<forall>c t v. (c, Some (t, v)) \<in> set out \<longrightarrow> v = embed_chunk c) \<and>
     (\<forall>out \<in> set (serve embed_chunk evs empty_store).
        \<forall>out0 \<in> set (serve embed_chunk (map without_fast evs) empty_store).
          \<forall>c t v t0 v0. (c, Some (t, v)) \<in> set out \<and> (c, Some (t0, v0)) \<in> set out0 \<longrightarrow> v0 = v) \<and>
     (list_all durable_intact evs \<longrightarrow>
        map vectors (serve embed_chunk (map without_fast evs) empty_store) =
          map vectors (serve embed_chunk evs empty_store) \<and>
        retrieve_with_store embed_chunk (map without_fast evs) False True source_up corpus
            embed_query sim query_text k filters =
          retrieve_with_store embed_chunk evs fast_up True source_up corpus
            embed_query sim query_text k filters) \<and>
     (list_all source_reachable evs \<longrightarrow>
        map vectors (serve embed_chunk (map without_fast evs) empty_store) =
          map vectors (serve embed_chunk evs empty_store)) \<and>
     (list_all source_reachable evs \<and> list_all source_up (map chunk_id corpus) \<longrightarrow>
        retrieve_with_store embed_chunk (map without_fast evs) False durable_up source_up corpus
            embed_query sim query_text k filters =
          retrieve_with_store embed_chunk evs fast_up durable_up source_up corpus
            embed_query sim query_text k filters)"
proof (intro conjI)
  have one: "v = embed_chunk c"
    if "out \<in> set (serve embed_chunk h empty_store)" "(c, Some (t, v)) \<in> set out"
    for out c t v h
    using empty_store_invariants(1) that by (rule serve_transparent)
  show "\<forall>out \<in> set (serve embed_chunk evs empty_store).
        \<forall>c t v. (c, Some (t, v)) \<in> set out \<longrightarrow> v = embed_chunk c"
    using one by blast
  show "\<forall>out \<in> set (serve embed_chunk evs empty_store).
        \<forall>out0 \<in> set (serve embed_chunk (map without_fast evs) empty_store).
          \<forall>c t v t0 v0. (c, Some (t, v)) \<in> set out \<and> (c, Some (t0, v0)) \<in> set out0 \<longrightarrow> v0 = v"
  proof (intro ballI allI impI, elim conjE)
    fix out out0 c t v t0 v0
    assume "out \<in> set (serve embed_chunk evs empty_store)" "(c, Some (t, v)) \<in> set out"
    then have "v = embed_chunk c" by (rule one)
    moreover
    assume "out0 \<in> set (serve embed_chunk (map without_fast evs) empty_store)"
      "(c, Some (t0, v0)) \<in> set out0"
    then have "v0 = embed_chunk c" by (rule one)
    ultimately show "v0 = v" by simp
  qed
  show "list_all durable_intact evs \<longrightarrow>
        map vectors (serve embed_chunk (map without_fast evs) empty_store) =
          map vectors (serve embed_chunk evs empty_store) \<and>
        retrieve_with_store embed_chunk (map without_fast evs) False True source_up corpus
            embed_query sim query_text k filters =
          retrieve_with_store embed_chunk evs fast_up True source_up corpus
            embed_query sim query_text k filters"
  proof (intro impI conjI)
    assume intact: "list_all durable_intact evs"
    show "map vectors (serve embed_chunk (map without_fast evs) empty_store) =
          map vectors (serve embed_chunk evs empty_store)"
      by (rule serve_without_fast [OF intact empty_store_invariants(2)]) simp
    from intact
    have "list_all durable_intact (evs @ [Request fast_up True source_up (map chunk_id corpus)])"
      by simp
    then have "map vectors (serve embed_chunk
          (map without_fast (evs @ [Request fast_up True source_up (map chunk_id corpus)]))
          empty_store) =
        map vectors (serve embed_chunk
          (evs @ [Request fast_up True source_up (map chunk_id corpus)]) empty_store)"
      by (rule serve_without_fast [OF _ empty_store_invariants(2)]) simp
    then show "retrieve_with_store embed_chunk (map without_fast evs) False True source_up corpus
            embed_query sim query_text k filters =
          retrieve_with_store embed_chunk evs fast_up True source_up corpus
            embed_query sim query_text k filters"
      by (simp add: retrieve_with_store_def)
  qed
  show "list_all source_reachable evs \<longrightarrow>
        map vectors (serve embed_chunk (map without_fast evs) empty_store) =
          map vectors (serve embed_chunk evs empty_store)"
    by (intro impI) (rule serve_source_without_fast)
  show "list_all source_reachable evs \<and> list_all source_up (map chunk_id corpus) \<longrightarrow>
        retrieve_with_store embed_chunk (map without_fast evs) False durable_up source_up corpus
            embed_query sim query_text k filters =
          retrieve_with_store embed_chunk evs fast_up durable_up source_up corpus
            embed_query sim query_text k filters"
  proof (intro impI, elim conjE)
    assume "list_all source_reachable evs" "list_all source_up (map chunk_id corpus)"
    then have "list_all source_reachable
        (evs @ [Request fast_up durable_up source_up (map chunk_id corpus)])"
      by simp
    then have "map vectors (serve embed_chunk
          (map without_fast (evs @ [Request fast_up durable_up source_up (map chunk_id corpus)]))
          empty_store) =
        map vectors (serve embed_chunk
          (evs @ [Request fast_up durable_up source_up (map chunk_id corpus)]) empty_store)"
      by (rule serve_source_without_fast)
    then show "retrieve_with_store embed_chunk (map without_fast evs) False durable_up source_up
            corpus embed_query sim query_text k filters =
          retrieve_with_store embed_chunk evs fast_up durable_up source_up corpus
            embed_query sim query_text k filters"
      by (simp add: retrieve_with_store_def)
  qed
qed

theorem tier_transparency_witness:
  "[(''c1'', Some (FastTier, 148)), (''c3'', None)] \<in> set (serve demo_embed demo_history empty_store) \<and>
   (''c1'', Some (FastTier, 148::int)) \<in> set [(''c1'', Some (FastTier, 148)), (''c3'', None)] \<and>
   [(''c1'', Some (DurableTier, 148)), (''c3'', None)] \<in>
     set (serve demo_embed (map without_fast demo_history) empty_store) \<and>
   (''c1'', Some (DurableTier, 148::int)) \<in> set [(''c1'', Some (DurableTier, 148)), (''c3'', None)] \<and>
   demo_embed ''c1'' = 148 \<and>
   list_all durable_intact demo_history \<and>
   map vectors (serve demo_embed (map without_fast demo_history) empty_store) =
     map vectors (serve demo_embed demo_history empty_store) \<and>
   retrieve_with_store demo_embed (map without_fast demo_history) False True source_never
       (map fst demo_index) demo_embed_query demo_sim ''q'' 2 all_chunks =
     retrieve_with_store demo_embed demo_history True True source_never
       (map fst demo_index) demo_embed_query demo_sim ''q'' 2 all_chunks \<and>
   list_all source_reachable source_history \<and>
   list_all source_always (map chunk_id (map fst demo_index)) \<and>
   map vectors (serve demo_embed (map without_fast source_history) empty_store) =
     map vectors (serve demo_embed source_history empty_store) \<and>
   retrieve_with_store demo_embed (map without_fast source_history) False False source_always
       (map fst demo_index) demo_embed_query demo_sim ''q'' 2 all_chunks =
     retrieve_with_store demo_embed source_history True False source_always
       (map fst demo_index) demo_embed_query demo_sim ''q'' 2 all_chunks"
proof -
  note intact = tier_transparency [of demo_embed demo_history source_never "map fst demo_index"
      demo_embed_query demo_sim "''q''" 2 all_chunks True True]
  note reach = tier_transparency [of demo_embed source_history source_always "map fst demo_index"
      demo_embed_query demo_sim "''q''" 2 all_chunks True False]
  have out: "[(''c1'', Some (FastTier, 148)), (''c3'', None)] \<in>
      set (serve demo_embed demo_history empty_store)"
    by code_simp
  have mem: "(''c1'', Some (FastTier, 148::int)) \<in> set [(''c1'', Some (FastTier, 148)), (''c3'', None)]"
    by simp
  have out0: "[(''c1'', Some (DurableTier, 148)), (''c3'', None)] \<in>
      set (serve demo_embed (map without_fast demo_history) empty_store)"
    by code_simp
  have mem0: "(''c1'', Some (DurableTier, 148::int)) \<in>
      set [(''c1'', Some (DurableTier, 148)), (''c3'', None)]"
    by simp
  from intact [THEN conjunct1] out
  have all: "\<forall>c t v. (c, Some (t, v)) \<in> set [(''c1'', Some (FastTier, 148)), (''c3'', None)] \<longrightarrow>
      v = demo_embed c"
    by (rule bspec)
  from all [rule_format, OF mem] have v: "demo_embed ''c1'' = 148"
    by (rule sym)
  have di: "list_all durable_intact demo_history"
    by (simp add: demo_history_def)
  have sr: "list_all source_reachable source_history"
    by (simp add: source_history_def source_always_def)
  have sc: "list_all source_always (map chunk_id (map fst demo_index))"
    by (simp add: source_always_def list_all_iff)
  note i3 = intact [THEN conjunct2, THEN conjunct2, THEN conjunct1, rule_format, OF di]
  note r4 = reach [THEN conjunct2, THEN conjunct2, THEN conjunct2, THEN conjunct1, rule_format, OF sr]
  note r5 = reach [THEN conjunct2, THEN conjunct2, THEN conjunct2, THEN conjunct2, rule_format,
      OF conjI [OF sr sc]]
  show ?thesis
    by (intro conjI) (rule out mem out0 mem0 v di sr sc i3 [THEN conjunct1] i3 [THEN conjunct2] r4 r5)+
qed

section \<open>A council whose providers all fail\<close>

lemma council_run_done [simp]: "council_run cfg calls n (Done rs v t) = Done rs v t"
  by (induction n) simp_all

lemma step_decide_done:
  "\<exists>rs v u. council_step cfg calls (decide calls t) = Done rs v u \<and> t \<le> u"
  by (cases "judge_call cfg (ok_answers (map (collect t) calls))")
    (auto simp: decide_def Let_def split: option.splits)

lemma collecting_settles:
  "global_ceiling cfg - t = k \<Longrightarrow> t \<le> global_ceiling cfg \<Longrightarrow>
   \<exists>t'. t \<le> t' \<and> t' \<le> global_ceiling cfg \<and>
     council_run cfg calls (Suc (Suc k)) (Collecting t) = council_step cfg calls (decide calls t')"
proof (induction k arbitrary: t)
  case 0
  then have "global_ceiling cfg \<le> t" by simp
  with 0 show ?case
    by (intro exI [of _ t]) simp
next
  case (Suc k)
  show ?case
  proof (cases "list_all (terminated_by t) calls")
    case True
    obtain rs v u where d: "council_step cfg calls (decide calls t) = Done rs v u"
      using step_decide_done by blast
    with True Suc.prems show ?thesis
      by (intro exI [of _ t]) simp
  next
    case False
    from Suc.prems have "global_ceiling cfg - Suc t = k" "Suc t \<le> global_ceiling cfg" "\<not> global_ceiling cfg \<le> t"
      by simp_all
    with Suc.IH [of "Suc t"] False show ?thesis
      by (auto intro: Suc_leD)
  qed
qed

lemma deliberate_settles:
  "\<exists>t'. t' \<le> global_ceiling cfg \<and> deliberate cfg calls = council_step cfg calls (decide calls t')"
proof -
  from collecting_settles [of cfg 0 "global_ceiling cfg" calls]
  obtain t' where t': "t' \<le> global_ceiling cfg"
    "council_run cfg calls (Suc (Suc (global_ceiling cfg))) (Collecting 0) =
       council_step cfg calls (decide calls t')"
    by auto
  have "deliberate cfg calls = council_run cfg calls (Suc (Suc (global_ceiling cfg))) (Collecting 0)"
    by (simp add: deliberate_def numeral_eq_Suc)
  with t' show ?thesis by auto
qed

lemma collect_provider: "cr_provider (collect t call) = provider call"
  by (simp add: collect_def split: option.splits sum.splits)

lemma collect_ok_succeeds:
  "is_ok (collect t call) \<Longrightarrow> t \<le> limit \<Longrightarrow> succeeds limit call"
  by (auto simp: is_ok_def collect_def succeeds_def terminated_by_def
      split: option.splits sum.splits if_splits)

lemma decide_all_fail:
  assumes "\<forall>c \<in> set calls. \<not> succeeds limit c" and "t \<le> limit"
  shows "decide calls t = Done (map (collect t) calls) no_deliberation t"
    and "list_all (\<lambda>r. \<not> is_ok r) (map (collect t) calls)"
proof -
  have none: "\<not> is_ok (collect t c)" if "c \<in> set calls" for c
    using that assms collect_ok_succeeds [of t c limit] by blast
  then show "list_all (\<lambda>r. \<not> is_ok r) (map (collect t) calls)"
    by (simp add: list_all_iff)
  from none show "decide calls t = Done (map (collect t) calls) no_deliberation t"
    by (auto simp: decide_def Let_def list_ex_iff)
qed

text \<open>
  Claim C2.  Every deliberation is done after \<open>global_ceiling + 4\<close> steps of the machine and
  stays done: it never hangs, and the machine has no state for a fault.  When no provider
  call succeeds within the global ceiling (each one returns an error, or is still in
  flight at the ceiling, or never returns; also when there are no providers), the verdict
  is the no-deliberation verdict, whose confidence is zero and whose synthesis says that
  no deliberation was possible; the judge is not called, the clock at the end is at most
  the global ceiling, and the results list the providers in configuration order, none ok.
\<close>

theorem all_providers_fail_verdict:
  "(\<exists>rs v t. deliberate cfg calls = Done rs v t) \<and>
   council_run cfg calls n (deliberate cfg calls) = deliberate cfg calls \<and>
   ((\<forall>c \<in> set calls. \<not> succeeds (global_ceiling cfg) c) \<longrightarrow>
      (\<exists>rs t. deliberate cfg calls = Done rs no_deliberation t \<and>
         t \<le> global_ceiling cfg \<and>
         map cr_provider rs = map provider calls \<and>
         list_all (\<lambda>r. \<not> is_ok r) rs)) \<and>
   confidence no_deliberation = 0 \<and>
   synthesis no_deliberation = ''No deliberation was possible: no provider returned an answer.''"
proof -
  obtain t' where t': "t' \<le> global_ceiling cfg"
    "deliberate cfg calls = council_step cfg calls (decide calls t')"
    using deliberate_settles by blast
  obtain rs v u where d: "council_step cfg calls (decide calls t') = Done rs v u"
    using step_decide_done by blast
  have reaches: "\<exists>rs v t. deliberate cfg calls = Done rs v t"
    using t'(2) d by simp
  have stable: "council_run cfg calls n (deliberate cfg calls) = deliberate cfg calls"
    using t'(2) d by simp
  have fail: "(\<forall>c \<in> set calls. \<not> succeeds (global_ceiling cfg) c) \<longrightarrow>
      (\<exists>rs t. deliberate cfg calls = Done rs no_deliberation t \<and>
         t \<le> global_ceiling cfg \<and>
         map cr_provider rs = map provider calls \<and>
         list_all (\<lambda>r. \<not> is_ok r) rs)"
  proof
    assume all: "\<forall>c \<in> set calls. \<not> succeeds (global_ceiling cfg) c"
    from decide_all_fail [OF all t'(1)] t'
    have "deliberate cfg calls = Done (map (collect t') calls) no_deliberation t'"
      "list_all (\<lambda>r. \<not> is_ok r) (map (collect t') calls)"
      by simp_all
    moreover have "map cr_provider (map (collect t') calls) = map provider calls"
      by (simp add: collect_provider)
    ultimately show "\<exists>rs t. deliberate cfg calls = Done rs no_deliberation t \<and>
         t \<le> global_ceiling cfg \<and>
         map cr_provider rs = map provider calls \<and>
         list_all (\<lambda>r. \<not> is_ok r) rs"
      using t'(1) by blast
  qed
  from reaches stable fail show ?thesis
    by (simp add: no_deliberation_def)
qed

theorem all_providers_fail_verdict_witness:
  "\<not> succeeds (global_ceiling demo_config)
       \<lparr>provider = ''openai'', finishes = Some 1, outcome = Inl RateLimited\<rparr> \<and>
   \<not> succeeds (global_ceiling demo_config)
       \<lparr>provider = ''deepseek'', finishes = Some 9, outcome = Inr ''yes, 500 layoffs''\<rparr> \<and>
   \<not> succeeds (global_ceiling demo_config)
       \<lparr>provider = ''anthropic'', finishes = None, outcome = Inl Unavailable\<rparr> \<and>
   deliberate demo_config demo_calls =
     Done [\<lparr>cr_provider = ''openai'', cr_status = Failed RateLimited, cr_latency = 1,
             cr_answer = None\<rparr>,
           \<lparr>cr_provider = ''deepseek'', cr_status = TimedOut, cr_latency = 5, cr_answer = None\<rparr>,
           \<lparr>cr_provider = ''anthropic'', cr_status = TimedOut, cr_latency = 5, cr_answer = None\<rparr>]
       no_deliberation 5 \<and>
   (case deliberate demo_config demo_calls of
      Done rs v t \<Rightarrow> confidence v = 0 \<and> t \<le> global_ceiling demo_config
    | _ \<Rightarrow> False)"
proof -
  have f: "\<forall>c \<in> set demo_calls. \<not> succeeds (global_ceiling demo_config) c"
    by (simp add: demo_calls_def demo_config_def succeeds_def terminated_by_def)
  from all_providers_fail_verdict [of demo_config demo_calls 0] f
  obtain rs t where r: "deliberate demo_config demo_calls = Done rs no_deliberation t"
    "t \<le> global_ceiling demo_config" "confidence no_deliberation = 0"
    by blast
  have v: "deliberate demo_config demo_calls =
     Done [\<lparr>cr_provider = ''openai'', cr_status = Failed RateLimited, cr_latency = 1,
             cr_answer = None\<rparr>,
           \<lparr>cr_provider = ''deepseek'', cr_status = TimedOut, cr_latency = 5, cr_answer = None\<rparr>,
           \<lparr>cr_provider = ''anthropic'', cr_status = TimedOut, cr_latency = 5, cr_answer = None\<rparr>]
       no_deliberation 5"
    by code_simp
  have c: "case deliberate demo_config demo_calls of
      Done rs v t \<Rightarrow> confidence v = 0 \<and> t \<le> global_ceiling demo_config
    | _ \<Rightarrow> False"
    using r by simp
  from f v c show ?thesis
    by (simp add: demo_calls_def)
qed

end
